theory Spec2Isabelle
  imports Main "HOL-Library.Sublist" "HOL-Library.AList"
begin

text \<open>
  A shallow embedding of the entitlement engine of the access bot: the tier resolver,
  the role reconciler, the identity link store, the verification handler and the
  subscription audit of \<open>index.js\<close>, and the line items of \<open>shopify.js\<close>. \<open>index.js\<close>
  holds two revisions of the program; the embedding follows the later one, which has
  the audit. The replies to the interaction, the \<open>logger\<close> module and the scheduling
  of the sweep are not modelled: a handler returns its terminal outcome, and a sweep
  is one call of \<open>runSubscriptionAudit\<close>.
\<close>

section \<open>Strings: \<open>normalize\<close>, \<open>normEmail\<close>, \<open>String.prototype.includes\<close>\<close>

text \<open>
  JavaScript strings are modelled as HOL strings. \<open>trim\<close> removes the ASCII white
  space of the ECMAScript \<open>WhiteSpace\<close> and \<open>LineTerminator\<close> classes (TAB, LF, VT, FF,
  CR, SPACE) from both ends, \<open>toLowerCase\<close> maps \<open>A\<close>..\<open>Z\<close> to \<open>a\<close>..\<open>z\<close> and leaves
  every other character alone. The theorems about the tier resolver do not depend on
  which characters the two functions treat specially.
\<close>

definition isWhiteSpace :: "char \<Rightarrow> bool" where
  "isWhiteSpace c = (c \<in> set [CHR 0x09, CHR 0x0A, CHR 0x0B, CHR 0x0C, CHR 0x0D, CHR '' ''])"

definition trim :: "string \<Rightarrow> string" where
  "trim s = rev (dropWhile isWhiteSpace (rev (dropWhile isWhiteSpace s)))"

definition toLowerChar :: "char \<Rightarrow> char" where
  "toLowerChar c =
     (case map_of (zip ''ABCDEFGHIJKLMNOPQRSTUVWXYZ'' ''abcdefghijklmnopqrstuvwxyz'') c of
        Some d \<Rightarrow> d
      | None \<Rightarrow> c)"

definition toLowerCase :: "string \<Rightarrow> string" where
  "toLowerCase s = map toLowerChar s"

text \<open>\<^verbatim>\<open>function normalize(s) { return (s || "").trim().toLowerCase(); }\<close>\<close>

definition normalize :: "string \<Rightarrow> string" where
  "normalize s = toLowerCase (trim s)"

text \<open>\<^verbatim>\<open>function normEmail(email) { return (email || "").trim().toLowerCase(); }\<close>\<close>

definition normEmail :: "string \<Rightarrow> string" where
  "normEmail email = toLowerCase (trim email)"

text \<open>
  \<open>includesStr x k\<close> is \<^verbatim>\<open>x.includes(k)\<close>: the scan over the start positions of \<open>x\<close>,
  testing at each whether \<open>k\<close> begins there.
\<close>

fun includesStr :: "string \<Rightarrow> string \<Rightarrow> bool" where
  "includesStr [] k = (k = [])"
| "includesStr (c # cs) k = (prefix k (c # cs) \<or> includesStr cs k)"

section \<open>Tiers\<close>

record tierdef =
  product :: string
  role :: string

definition TIERS :: "tierdef list" where
  "TIERS =
    [\<lparr>product = ''ELITE TRADER MENTORSHIP'', role = ''Elite Member''\<rparr>,
     \<lparr>product = ''MARKET EXECUTION PROGRAM'', role = ''Execution Member''\<rparr>,
     \<lparr>product = ''MARKET FOUNDATION PROGRAM'', role = ''Foundation Member''\<rparr>,
     \<lparr>product = ''VIP ACCESS'', role = ''VIP''\<rparr>,
     \<lparr>product = ''FREE DISCORD ACCESS'', role = ''Members''\<rparr>]"

definition BASE_ROLE_NAME :: string where
  "BASE_ROLE_NAME = ''Members''"

definition ALL_ROLE_NAMES :: "string list" where
  "ALL_ROLE_NAMES = map role TIERS"

text \<open>
  The \<^verbatim>\<open>for (const t of TIERS)\<close> loop of \<open>pickHighestTier\<close>, over the tiers still to
  be tried; \<open>normTitles.some(...)\<close> is \<open>list_ex\<close>.
\<close>

fun pickFrom :: "tierdef list \<Rightarrow> string list \<Rightarrow> tierdef option" where
  "pickFrom [] normTitles = None"
| "pickFrom (t # ts) normTitles =
     (if list_ex (\<lambda>x. includesStr x (normalize (product t))) normTitles then Some t
      else pickFrom ts normTitles)"

definition pickHighestTier :: "string list \<Rightarrow> tierdef option" where
  "pickHighestTier titles = pickFrom TIERS (map normalize titles)"

text \<open>\<^verbatim>\<open>isTierTitleMatch(lineItemTitle, tierProductName)\<close>\<close>

definition isTierTitleMatch :: "string \<Rightarrow> string \<Rightarrow> bool" where
  "isTierTitleMatch lineItemTitle tierProductName =
     includesStr (normalize lineItemTitle) (normalize tierProductName)"

text \<open>
  The resolver as the specification words it: a tier matches a set of titles when its
  normalized match key is a substring (a contiguous sublist) of some normalized title.
\<close>

definition tierMatches :: "tierdef \<Rightarrow> string list \<Rightarrow> bool" where
  "tierMatches t titles = (\<exists>x \<in> set titles. sublist (normalize (product t)) (normalize x))"

section \<open>The platform: roles, members, the persisted file, the log\<close>

text \<open>
  A platform role is an object with an identifier and a name; several roles of a guild
  may carry the same name. \<open>rolesByName\<close> is
  \<^verbatim>\<open>new Map(guild.roles.cache.map((r) => [r.name, r]))\<close>: a later entry of the cache
  replaces an earlier one of the same name.
\<close>

datatype discordRole = Role (roleId: string) (name: string)

type_synonym guild = "discordRole list"

definition rolesByName :: "guild \<Rightarrow> string \<Rightarrow> discordRole option" where
  "rolesByName g = map_of (rev (map (\<lambda>r. (name r, r)) g))"

text \<open>
  An entry of the persisted map. A field that is absent or \<open>null\<close> in the JSON object
  is \<open>None\<close>; what \<open>verify\<close> writes always has the first five fields and \<open>updatedAt\<close>.
\<close>

record emailRecord =
  discordUserId :: "string option"
  userTag :: "string option"
  tier :: "string option"
  isSubscription :: "bool option"
  lastPaidAt :: "string option"
  updatedAt :: "string option"
  lastAuditAt :: "string option"
  lastAuditReason :: "string option"

text \<open>
  The map is a JavaScript object used as a dictionary: an association list in the
  order of \<open>Object.entries\<close>, with \<open>map_of\<close> for \<open>map[email]\<close> and \<open>AList.update\<close> for
  \<open>map[email] = v\<close> (an existing key keeps its place, a new key goes to the end).
\<close>

type_synonym emailMap = "(string \<times> emailRecord) list"

datatype fileState = Missing | Corrupt | Stored emailMap

datatype error =
    BaseRoleNotFound
  | TargetRoleNotFound string
  | PlatformError
  | WriteError
  | GatewayError

datatype level = INFO | WARN | ERROR | SUCCESS

datatype logEvent = LogEvent (event: string) (eventLevel: level) (eventEmail: "string option")

datatype apiCall =
    RolesAdd string discordRole
  | RolesRemove string "discordRole list"
  | WriteFile emailMap

text \<open>
  The state the program acts on: the file at \<open>EMAIL_MAP_PATH\<close>, the roles each guild
  member holds (\<open>None\<close>: not a member of the guild), the events handed to \<open>postBotLog\<close>,
  and the membership and file-system calls issued so far, in order.
\<close>

record world =
  storeFile :: fileState
  members :: "string \<Rightarrow> discordRole set option"
  log :: "logEvent list"
  calls :: "apiCall list"

text \<open>
  What the run-time environment supplies: the guild \<open>client.guilds.cache.first()\<close>
  (its role cache; \<open>None\<close> when the bot is in no guild), the parsing of a date string by
  \<open>new Date(s)\<close> (\<open>None\<close>: an invalid date, whose \<open>getTime()\<close> is \<open>NaN\<close>),
  \<open>Date.prototype.toISOString\<close>, the clock \<open>new Date()\<close> in milliseconds (read once per
  run in the model), and the faults: the \<open>i\<close>-th membership or file-system call of a run
  throws iff \<open>faults i\<close>.
\<close>

record env =
  firstGuild :: "guild option"
  parseDate :: "string \<Rightarrow> int option"
  toISOString :: "int \<Rightarrow> string"
  now :: int
  faults :: "nat \<Rightarrow> bool"

record config =
  AUDIT_DRY_RUN :: bool
  AUDIT_GRACE_DAYS :: int

text \<open>JavaScript truthiness of a field holding a string, \<open>null\<close> or nothing.\<close>

fun truthy :: "string option \<Rightarrow> bool" where
  "truthy None = False"
| "truthy (Some s) = (s \<noteq> [])"

text \<open>
  \<open>postBotLog(client, event, payload, level)\<close>: the model records the event, its level
  and the \<open>email\<close> of its payload. Rendering the embed and delivering it to the channel
  \<open>LOG_CHANNEL_ID\<close> (nothing is sent when that is unset or the channel cannot be
  fetched, and a failed send is swallowed) are the log shipping behind it and not
  modelled; \<open>postBotLog\<close> does not throw.
\<close>

definition postBotLog :: "string \<Rightarrow> level \<Rightarrow> string option \<Rightarrow> world \<Rightarrow> world" where
  "postBotLog ev lvl em w = w\<lparr>log := log w @ [LogEvent ev lvl em]\<rparr>"

text \<open>
  \<open>loadEmailMap\<close>: the empty object when the file is missing or \<open>JSON.parse\<close> throws.
\<close>

definition loadEmailMap :: "world \<Rightarrow> emailMap" where
  "loadEmailMap w = (case storeFile w of Missing \<Rightarrow> [] | Corrupt \<Rightarrow> [] | Stored m \<Rightarrow> m)"

text \<open>
  A function that may throw returns the error beside the state it leaves. A call that
  fails leaves the roles, or the file, as they were.
\<close>

definition saveEmailMap :: "env \<Rightarrow> emailMap \<Rightarrow> world \<Rightarrow> error option \<times> world" where
  "saveEmailMap e m w =
     (let w1 = w\<lparr>calls := calls w @ [WriteFile m]\<rparr> in
      if faults e (length (calls w)) then (Some WriteError, w1)
      else (None, w1\<lparr>storeFile := Stored m\<rparr>))"

definition rolesAdd :: "env \<Rightarrow> string \<Rightarrow> discordRole \<Rightarrow> world \<Rightarrow> error option \<times> world" where
  "rolesAdd e uid r w =
     (let w1 = w\<lparr>calls := calls w @ [RolesAdd uid r]\<rparr> in
      case members w uid of
        None \<Rightarrow> (Some PlatformError, w1)
      | Some rs \<Rightarrow>
          if faults e (length (calls w)) then (Some PlatformError, w1)
          else (None, w1\<lparr>members := (members w)(uid \<mapsto> insert r rs)\<rparr>))"

definition rolesRemove ::
  "env \<Rightarrow> string \<Rightarrow> discordRole list \<Rightarrow> world \<Rightarrow> error option \<times> world" where
  "rolesRemove e uid rs' w =
     (let w1 = w\<lparr>calls := calls w @ [RolesRemove uid rs']\<rparr> in
      case members w uid of
        None \<Rightarrow> (Some PlatformError, w1)
      | Some rs \<Rightarrow>
          if faults e (length (calls w)) then (Some PlatformError, w1)
          else (None, w1\<lparr>members := (members w)(uid \<mapsto> rs - set rs')\<rparr>))"

definition thenDo ::
  "error option \<times> world \<Rightarrow> (world \<Rightarrow> error option \<times> world) \<Rightarrow> error option \<times> world" where
  "thenDo r f = (case r of (Some err, w) \<Rightarrow> (Some err, w) | (None, w) \<Rightarrow> f w)"

section \<open>The role reconciler\<close>

text \<open>
  The list \<open>toRemove\<close> of \<open>setExclusiveTierRole\<close>: the roles the guild has under the
  configured tier names other than the base role's and the target's
  (\<open>.filter(Boolean)\<close> drops the names the guild has no role for).
\<close>

definition toRemoveExclusive :: "guild \<Rightarrow> string \<Rightarrow> discordRole list" where
  "toRemoveExclusive g roleName =
     List.map_filter (rolesByName g)
       (filter (\<lambda>n. n \<noteq> BASE_ROLE_NAME \<and> n \<noteq> roleName) ALL_ROLE_NAMES)"

text \<open>The list \<open>toRemove\<close> of \<open>downgradeToMembers\<close>: every paid tier's role.\<close>

definition toRemoveDowngrade :: "guild \<Rightarrow> discordRole list" where
  "toRemoveDowngrade g =
     List.map_filter (rolesByName g) (filter (\<lambda>n. n \<noteq> BASE_ROLE_NAME) ALL_ROLE_NAMES)"

definition setExclusiveTierRole ::
  "env \<Rightarrow> string \<Rightarrow> guild \<Rightarrow> string \<Rightarrow> world \<Rightarrow> error option \<times> world" where
  "setExclusiveTierRole e member g roleName w =
     (case rolesByName g BASE_ROLE_NAME of
        None \<Rightarrow> (Some BaseRoleNotFound, w)
      | Some base \<Rightarrow>
         (case rolesByName g roleName of
            None \<Rightarrow> (Some (TargetRoleNotFound roleName), w)
          | Some target \<Rightarrow>
              thenDo (rolesAdd e member base w) (\<lambda>w.
              thenDo (rolesAdd e member target w) (\<lambda>w.
                let toRemove = toRemoveExclusive g roleName
                in if toRemove \<noteq> [] then rolesRemove e member toRemove w else (None, w)))))"

definition downgradeToMembers :: "env \<Rightarrow> string \<Rightarrow> guild \<Rightarrow> world \<Rightarrow> error option \<times> world" where
  "downgradeToMembers e member g w =
     (case rolesByName g BASE_ROLE_NAME of
        None \<Rightarrow> (Some BaseRoleNotFound, w)
      | Some base \<Rightarrow>
          thenDo (rolesAdd e member base w) (\<lambda>w.
            let toRemove = toRemoveDowngrade g
            in if toRemove \<noteq> [] then rolesRemove e member toRemove w else (None, w)))"

section \<open>The subscription audit\<close>

text \<open>\<^verbatim>\<open>Math.floor((now.getTime() - past.getTime()) / (1000 * 60 * 60 * 24))\<close>\<close>

definition daysBetween :: "int \<Rightarrow> int \<Rightarrow> int" where
  "daysBetween n past = (n - past) div (1000 * 60 * 60 * 24)"

text \<open>Decimal rendering of a number inside a template string.\<close>

fun showNat :: "nat \<Rightarrow> string" where
  "showNat n =
     (if n < 10 then [''0123456789'' ! n]
      else showNat (n div 10) @ [''0123456789'' ! (n mod 10)])"

definition showInt :: "int \<Rightarrow> string" where
  "showInt i = (if i < 0 then CHR ''-'' # showNat (nat (- i)) else showNat (nat i))"

text \<open>
  The body of the \<open>try\<close> block of one iteration of the sweep, for the entry
  \<open>[email, rec]\<close>. It acts on the map \<open>m\<close> loaded at the start of the sweep, which the
  iterations share and update in place, and on the world.
  \<open>guild.members.fetch(id).catch(() => null)\<close> reads the member from the world: a
  fetch that fails is caught there and is a member that is not found.
\<close>

definition auditRecord ::
  "config \<Rightarrow> env \<Rightarrow> string \<times> emailRecord \<Rightarrow> emailMap \<Rightarrow> world
     \<Rightarrow> error option \<times> emailMap \<times> world" where
  "auditRecord cfg e entry m w =
     (case entry of (email, rec) \<Rightarrow>
      if isSubscription rec \<noteq> Some True then (None, m, w)
      else if \<not> truthy (discordUserId rec) then (None, m, w)
      else if \<not> truthy (lastPaidAt rec) then
        (None, m, postBotLog ''audit_skip_missing_lastPaidAt'' WARN (Some email) w)
      else
       (case parseDate e (the (lastPaidAt rec)) of
          None \<Rightarrow> (None, m, postBotLog ''audit_skip_invalid_lastPaidAt'' WARN (Some email) w)
        | Some lastPaidDate \<Rightarrow>
           (let daysSincePaid = daysBetween (now e) lastPaidDate in
            if daysSincePaid < AUDIT_GRACE_DAYS cfg then (None, m, w)
            else
             (case firstGuild e of
                None \<Rightarrow> (None, m, w)
              | Some g \<Rightarrow>
                 (case members w (the (discordUserId rec)) of
                    None \<Rightarrow> (None, m, postBotLog ''audit_member_not_found'' WARN (Some email) w)
                  | Some held \<Rightarrow>
                     (let w1 = postBotLog ''audit_overdue_detected'' WARN (Some email) w in
                      if AUDIT_DRY_RUN cfg then (None, m, w1)
                      else
                       (case downgradeToMembers e (the (discordUserId rec)) g w1 of
                          (Some err, w2) \<Rightarrow> (Some err, m, w2)
                        | (None, w2) \<Rightarrow>
                           (let m' = AList.update email
                                  (rec\<lparr>tier := Some BASE_ROLE_NAME,
                                       lastAuditAt := Some (toISOString e (now e)),
                                       lastAuditReason :=
                                         Some (''overdue_'' @ showInt daysSincePaid @ ''d''),
                                       updatedAt := Some (toISOString e (now e))\<rparr>) m
                            in case saveEmailMap e m' w2 of
                                 (Some err, w3) \<Rightarrow> (Some err, m', w3)
                               | (None, w3) \<Rightarrow>
                                   (None, m',
                                    postBotLog ''audit_downgrade_success'' SUCCESS
                                      (Some email) w3)))))))))"

text \<open>
  \<open>try { body } catch (err) { handler }\<close>: the handler runs on the state the body left
  when it threw.
\<close>

definition tryCatch ::
  "error option \<times> emailMap \<times> world \<Rightarrow> (error \<Rightarrow> emailMap \<Rightarrow> world \<Rightarrow> error option \<times> emailMap \<times> world)
     \<Rightarrow> error option \<times> emailMap \<times> world" where
  "tryCatch body handler =
     (case body of (Some err, m, w) \<Rightarrow> handler err m w | (None, m, w) \<Rightarrow> (None, m, w))"

text \<open>One iteration of the sweep: the body, and the \<open>catch\<close> that logs \<open>audit_error\<close>.\<close>

definition auditIteration ::
  "config \<Rightarrow> env \<Rightarrow> string \<times> emailRecord \<Rightarrow> emailMap \<Rightarrow> world
     \<Rightarrow> error option \<times> emailMap \<times> world" where
  "auditIteration cfg e entry m w =
     tryCatch (auditRecord cfg e entry m w)
       (\<lambda>err m w. (None, m, postBotLog ''audit_error'' ERROR (Some (fst entry)) w))"

text \<open>
  The loop \<^verbatim>\<open>for (const [email, rec] of Object.entries(map))\<close> over the entries taken
  when the loop starts. An error that left an iteration would end the loop and the
  sweep.
\<close>

fun auditLoop ::
  "config \<Rightarrow> env \<Rightarrow> (string \<times> emailRecord) list \<Rightarrow> emailMap \<Rightarrow> world
     \<Rightarrow> error option \<times> emailMap \<times> world" where
  "auditLoop cfg e [] m w = (None, m, w)"
| "auditLoop cfg e (entry # entries) m w =
     (case auditIteration cfg e entry m w of
        (Some err, m1, w1) \<Rightarrow> (Some err, m1, w1)
      | (None, m1, w1) \<Rightarrow> auditLoop cfg e entries m1 w1)"

definition runSubscriptionAudit :: "config \<Rightarrow> env \<Rightarrow> world \<Rightarrow> error option \<times> world" where
  "runSubscriptionAudit cfg e w =
     (let m = loadEmailMap w;
          w1 = postBotLog ''audit_start'' INFO None w
      in case auditLoop cfg e m m w1 of
           (Some err, m', w2) \<Rightarrow> (Some err, w2)
         | (None, m', w2) \<Rightarrow> (None, postBotLog ''audit_end'' INFO None w2))"

section \<open>The commerce gateway (shopify.js)\<close>

text \<open>
  A line item as the verification handler reads it. \<open>itemIsSubscription\<close> is the
  item's field \<open>isSubscription\<close> (the name is taken by the stored record here).
  \<open>paidAt\<close> is \<open>None\<close> when the item has no such property.
\<close>

record lineItem =
  title :: string
  itemIsSubscription :: bool
  sellingPlanName :: "string option"
  paidAt :: "string option"

text \<open>
  A line-item node of the GraphQL response: its title and \<open>li?.sellingPlan?.name\<close>
  (\<open>None\<close> when the selling plan or its name is \<open>null\<close>). An order is the list
  \<open>order.lineItems.nodes\<close>. The query asks for no payment date of a line item.
\<close>

record lineNode =
  nodeTitle :: string
  sellingPlan :: "string option"

type_synonym order = "lineNode list"

definition toItem :: "lineNode \<Rightarrow> lineItem" where
  "toItem li =
     (let planName = (if truthy (sellingPlan li) then sellingPlan li else None)
      in \<lparr>title = nodeTitle li, itemIsSubscription = (planName \<noteq> None),
          sellingPlanName = planName, paidAt = None\<rparr>)"

text \<open>
  \<open>getPaidLineItemsByEmail\<close>, given \<open>shopifyGraphQL\<close> as the function from the search
  query to the orders of the response (or the error it throws).
\<close>

definition getPaidLineItemsByEmail ::
  "(string \<Rightarrow> error + order list) \<Rightarrow> string \<Rightarrow> error + lineItem list" where
  "getPaidLineItemsByEmail shopifyGraphQL email =
     (case shopifyGraphQL (''email:'' @ email @ '' financial_status:paid'') of
        Inl err \<Rightarrow> Inl err
      | Inr orders \<Rightarrow> Inr (concat (map (map toItem) orders)))"

section \<open>The verification workflow\<close>

datatype outcome =
    InvalidEmail
  | AlreadyLinkedConflict
  | NoPaidOrder
  | PaidNoTierMatch
  | Verified
  | VerificationFailed

text \<open>
  \<open>Math.max(...paidDates.map((d) => d.getTime()))\<close> over a non-empty list, the first
  element apart: \<open>None\<close> is \<open>NaN\<close>, which any invalid date makes the result.
\<close>

fun mathMax :: "int option \<Rightarrow> int option list \<Rightarrow> int option" where
  "mathMax acc [] = acc"
| "mathMax acc (d # ds) =
     mathMax (case (acc, d) of (Some a, Some b) \<Rightarrow> Some (max a b) | _ \<Rightarrow> None) ds"

text \<open>
  \<open>lastPaidAtIso\<close> of the handler: the \<open>paidAt\<close> values that are truthy, each parsed by
  \<open>new Date\<close>; \<open>null\<close> when there is none or the newest is an invalid date.
\<close>

definition lastPaidAtIso :: "env \<Rightarrow> lineItem list \<Rightarrow> string option" where
  "lastPaidAtIso e items =
     (case map (parseDate e) (filter (\<lambda>d. d \<noteq> []) (List.map_filter paidAt items)) of
        [] \<Rightarrow> None
      | d # ds \<Rightarrow>
         (case mathMax d ds of
            None \<Rightarrow> None
          | Some newestPaid \<Rightarrow> Some (toISOString e newestPaid)))"

text \<open>
  The \<open>try\<close> block of the \<open>/verify\<close> handler, for the normalized \<open>email\<close>, the requesting
  user \<open>uid\<close> (\<open>interaction.user.id\<close>, also the member acted on), the role cache \<open>g\<close> of
  \<open>interaction.guild\<close> and the map \<open>emailMap\<close> loaded at the start of the handler.
  \<open>fetchItems\<close> is the \<open>getPaidLineItemsByEmail\<close> the handler imports. The result is the
  error thrown, or the terminal outcome.
\<close>

definition verifyTry ::
  "env \<Rightarrow> (string \<Rightarrow> error + lineItem list) \<Rightarrow> guild \<Rightarrow> string \<Rightarrow> string \<Rightarrow> string
     \<Rightarrow> emailMap \<Rightarrow> world \<Rightarrow> (error + outcome) \<times> world" where
  "verifyTry e fetchItems g email uid tag emailMap w =
     (case fetchItems email of
        Inl err \<Rightarrow> (Inl err, w)
      | Inr items \<Rightarrow>
         (let titles = map title items;
              picked = pickHighestTier titles;
              w1 = postBotLog ''shopify_line_items'' INFO (Some email) w
          in if titles = [] then
               (Inr NoPaidOrder, postBotLog ''verify_no_paid_orders'' WARN (Some email) w1)
             else
              (let w2 = postBotLog ''tier_matched'' INFO (Some email) w1 in
               case picked of
                 None \<Rightarrow>
                   (Inr PaidNoTierMatch,
                    postBotLog ''verify_paid_but_no_tier_match'' WARN (Some email) w2)
               | Some t \<Rightarrow>
                  (let matchedIsSubscription =
                         list_ex (\<lambda>li. isTierTitleMatch (title li) (product t)
                                        \<and> itemIsSubscription li = True) items;
                       lastPaid = lastPaidAtIso e items
                   in case setExclusiveTierRole e uid g (role t) w2 of
                        (Some err, w3) \<Rightarrow> (Inl err, w3)
                      | (None, w3) \<Rightarrow>
                         (let emailMap' = AList.update email
                                \<lparr>discordUserId = Some uid, userTag = Some tag,
                                 tier = Some (role t),
                                 isSubscription = Some matchedIsSubscription,
                                 lastPaidAt = lastPaid,
                                 updatedAt = Some (toISOString e (now e)),
                                 lastAuditAt = None, lastAuditReason = None\<rparr> emailMap
                          in case saveEmailMap e emailMap' w3 of
                               (Some err, w4) \<Rightarrow> (Inl err, w4)
                             | (None, w4) \<Rightarrow>
                                 (Inr Verified,
                                  postBotLog ''verify_success''
                                    (if lastPaid \<noteq> None then SUCCESS else WARN)
                                    (Some email) w4))))))"

text \<open>
  The \<open>/verify\<close> handler: the normalization of the option, the two early returns, and
  the \<open>try\<close> block with its \<open>catch\<close>, which ends in \<open>Verification failed\<close>.
\<close>

definition verify ::
  "env \<Rightarrow> (string \<Rightarrow> error + lineItem list) \<Rightarrow> guild \<Rightarrow> string \<Rightarrow> string \<Rightarrow> string
     \<Rightarrow> world \<Rightarrow> outcome \<times> world" where
  "verify e fetchItems g rawEmail uid tag w =
     (let email = normEmail rawEmail;
          emailMap = loadEmailMap w;
          w1 = postBotLog ''verify_requested'' INFO (Some email) w
      in if email = [] \<or> \<not> includesStr email ''@'' then
           (InvalidEmail, postBotLog ''verify_invalid_email'' WARN (Some email) w1)
         else if (case map_of emailMap email of
                    None \<Rightarrow> False
                  | Some rec \<Rightarrow> discordUserId rec \<noteq> Some uid) then
           (AlreadyLinkedConflict,
            postBotLog ''verify_email_already_linked'' WARN (Some email) w1)
         else
          (case verifyTry e fetchItems g email uid tag emailMap w1 of
             (Inl err, w2) \<Rightarrow>
               (VerificationFailed, postBotLog ''verify_error'' ERROR (Some email) w2)
           | (Inr out, w2) \<Rightarrow> (out, w2)))"

text \<open>The \<open>/lookup\<close> handler: the entry it finds for the normalized email, if any.\<close>

definition lookup :: "string \<Rightarrow> world \<Rightarrow> emailRecord option" where
  "lookup rawEmail w = map_of (loadEmailMap w) (normEmail rawEmail)"

text \<open>
  The payment date of the specification's data model: the newest payment date among
  the line items whose title matches the granted tier.
\<close>

definition tierScopedLastPaid :: "env \<Rightarrow> tierdef \<Rightarrow> lineItem list \<Rightarrow> string option" where
  "tierScopedLastPaid e t items =
     lastPaidAtIso e (filter (\<lambda>li. isTierTitleMatch (title li) (product t)) items)"

section \<open>Notions of the specification used in the statements\<close>

text \<open>
  A record's \<open>lastPaidAt\<close> is missing or unparseable: the field is absent, \<open>null\<close> or
  empty, or \<open>new Date\<close> makes an invalid date of it.
\<close>

definition noUsablePaidDate :: "env \<Rightarrow> emailRecord \<Rightarrow> bool" where
  "noUsablePaidDate e rec =
     (case lastPaidAt rec of None \<Rightarrow> True | Some s \<Rightarrow> s = [] \<or> parseDate e s = None)"

text \<open>
  A record is overdue: its \<open>lastPaidAt\<close> parses to a date that lies the grace period or
  more full days before the clock of the sweep.
\<close>

definition overdue :: "config \<Rightarrow> env \<Rightarrow> emailRecord \<Rightarrow> bool" where
  "overdue cfg e rec =
     (case lastPaidAt rec of
        None \<Rightarrow> False
      | Some s \<Rightarrow>
          s \<noteq> [] \<and>
          (case parseDate e s of
             None \<Rightarrow> False
           | Some t \<Rightarrow> AUDIT_GRACE_DAYS cfg \<le> daysBetween (now e) t))"

section \<open>Example environments and worlds\<close>

text \<open>
  An environment in which no call fails, three date strings parse and the clock
  stands at 2024-02-05T00:00:00Z (35 days after the first date and 34 after the
  second), a guild with the base role and two tier roles, and a world without a store
  file and with one member, who holds the \<open>Elite Member\<close> role.
\<close>

definition exampleDate :: "string \<Rightarrow> int option" where
  "exampleDate s =
     (if s = ''2024-01-01T00:00:00.000Z'' then Some 1704067200000
      else if s = ''2024-01-02T00:00:00.000Z'' then Some 1704153600000
      else if s = ''2024-03-01T00:00:00.000Z'' then Some 1709251200000
      else None)"

definition exampleIso :: "int \<Rightarrow> string" where
  "exampleIso t =
     (if t = 1704067200000 then ''2024-01-01T00:00:00.000Z''
      else if t = 1709251200000 then ''2024-03-01T00:00:00.000Z''
      else ''2024-02-05T00:00:00.000Z'')"

definition exampleGuild :: guild where
  "exampleGuild = [Role ''1'' ''Members'', Role ''2'' ''VIP'', Role ''3'' ''Elite Member'']"

definition exampleEnv :: env where
  "exampleEnv =
     \<lparr>firstGuild = Some exampleGuild, parseDate = exampleDate, toISOString = exampleIso,
      now = 1707091200000, faults = (\<lambda>i. False)\<rparr>"

definition exampleWorld :: world where
  "exampleWorld =
     \<lparr>storeFile = Missing, members = [''u1'' \<mapsto> {Role ''3'' ''Elite Member''}],
      log = [], calls = []\<rparr>"

definition exampleConfig :: config where
  "exampleConfig = \<lparr>AUDIT_DRY_RUN = False, AUDIT_GRACE_DAYS = 35\<rparr>"

definition exampleDryRun :: config where
  "exampleDryRun = \<lparr>AUDIT_DRY_RUN = True, AUDIT_GRACE_DAYS = 35\<rparr>"

text \<open>A subscription record of the member \<open>u1\<close> whose payment date is missing.\<close>

definition exampleRecord :: emailRecord where
  "exampleRecord =
     \<lparr>discordUserId = Some ''u1'', userTag = Some ''user#0001'', tier = Some ''Elite Member'',
      isSubscription = Some True, lastPaidAt = None,
      updatedAt = Some ''2024-01-01T00:00:00.000Z'', lastAuditAt = None,
      lastAuditReason = None\<rparr>"

text \<open>
  Line items as a gateway that supplies \<open>paidAt\<close> would return them: a subscription
  to the VIP product paid on 2024-01-01 and a one-time purchase, of a product that
  matches no tier, paid on 2024-03-01. And a response of the shop to the order query:
  one order with the same two products.
\<close>

definition exampleItems :: "lineItem list" where
  "exampleItems =
     [\<lparr>title = ''VIP Access Pass'', itemIsSubscription = True,
       sellingPlanName = Some ''Monthly'', paidAt = Some ''2024-01-01T00:00:00.000Z''\<rparr>,
      \<lparr>title = ''Random Sticker Pack'', itemIsSubscription = False,
       sellingPlanName = None, paidAt = Some ''2024-03-01T00:00:00.000Z''\<rparr>]"

definition exampleShopify :: "string \<Rightarrow> error + order list" where
  "exampleShopify q =
     Inr [[\<lparr>nodeTitle = ''VIP Access Pass'', sellingPlan = Some ''Monthly''\<rparr>,
           \<lparr>nodeTitle = ''Random Sticker Pack'', sellingPlan = None\<rparr>]]"

section \<open>The tier resolver\<close>

lemma includesStr_sublist: "includesStr x k = sublist k x"
  by (induction x) (simp_all add: sublist_Cons_right)

lemma list_ex_includesStr:
  "list_ex (\<lambda>x. includesStr x (normalize (product t))) (map normalize titles) = tierMatches t titles"
  by (simp add: list_ex_iff tierMatches_def includesStr_sublist)

lemma pickFrom_None:
  "pickFrom ts (map normalize titles) = None \<longleftrightarrow> (\<forall>t \<in> set ts. \<not> tierMatches t titles)"
  by (induction ts) (simp_all add: list_ex_includesStr)

lemma pickFrom_Some:
  "pickFrom ts (map normalize titles) = Some t \<longleftrightarrow>
     (\<exists>i < length ts. ts ! i = t \<and> tierMatches t titles \<and>
        (\<forall>j < i. \<not> tierMatches (ts ! j) titles))"
proof (induction ts)
  case Nil
  show ?case by simp
next
  case (Cons u us)
  show ?case
  proof (cases "tierMatches u titles")
    case True
    have "(\<exists>i < length (u # us). (u # us) ! i = t \<and> tierMatches t titles \<and>
            (\<forall>j < i. \<not> tierMatches ((u # us) ! j) titles)) \<longleftrightarrow> u = t"
    proof
      assume "\<exists>i < length (u # us). (u # us) ! i = t \<and> tierMatches t titles \<and>
            (\<forall>j < i. \<not> tierMatches ((u # us) ! j) titles)"
      then obtain i where i: "(u # us) ! i = t" "\<forall>j < i. \<not> tierMatches ((u # us) ! j) titles"
        by blast
      have "i = 0"
      proof (rule ccontr)
        assume "i \<noteq> 0"
        then have "0 < i" by simp
        with i(2) have "\<not> tierMatches ((u # us) ! 0) titles" by blast
        with True show False by simp
      qed
      with i(1) show "u = t" by simp
    next
      assume "u = t"
      with True have "(u # us) ! 0 = t \<and> tierMatches t titles \<and>
            (\<forall>j < 0. \<not> tierMatches ((u # us) ! j) titles)" by simp
      then show "\<exists>i < length (u # us). (u # us) ! i = t \<and> tierMatches t titles \<and>
            (\<forall>j < i. \<not> tierMatches ((u # us) ! j) titles)" by blast
    qed
    with True show ?thesis
      by (simp add: list_ex_includesStr)
  next
    case False
    have "(\<exists>i < length (u # us). (u # us) ! i = t \<and> tierMatches t titles \<and>
            (\<forall>j < i. \<not> tierMatches ((u # us) ! j) titles)) \<longleftrightarrow>
          (\<exists>i < length us. us ! i = t \<and> tierMatches t titles \<and>
            (\<forall>j < i. \<not> tierMatches (us ! j) titles))" (is "?L \<longleftrightarrow> ?R")
    proof
      assume ?L
      then obtain i where i: "i < length (u # us)" "(u # us) ! i = t" "tierMatches t titles"
        "\<forall>j < i. \<not> tierMatches ((u # us) ! j) titles" by blast
      from i(2,3) False have "i \<noteq> 0" by (cases i) auto
      then obtain k where k: "i = Suc k" by (cases i) auto
      have "\<forall>j < k. \<not> tierMatches (us ! j) titles"
      proof (intro allI impI)
        fix j assume "j < k"
        then have "Suc j < i" using k by simp
        with i(4) have "\<not> tierMatches ((u # us) ! Suc j) titles" by blast
        then show "\<not> tierMatches (us ! j) titles" by simp
      qed
      with i k have "k < length us \<and> us ! k = t \<and> tierMatches t titles \<and>
          (\<forall>j < k. \<not> tierMatches (us ! j) titles)" by simp
      then show ?R by blast
    next
      assume ?R
      then obtain k where k: "k < length us" "us ! k = t" "tierMatches t titles"
        "\<forall>j < k. \<not> tierMatches (us ! j) titles" by blast
      have "\<forall>j < Suc k. \<not> tierMatches ((u # us) ! j) titles"
      proof (intro allI impI)
        fix j assume "j < Suc k"
        then show "\<not> tierMatches ((u # us) ! j) titles"
          using False k(4) by (cases j) auto
      qed
      with k have "Suc k < length (u # us) \<and> (u # us) ! Suc k = t \<and> tierMatches t titles \<and>
          (\<forall>j < Suc k. \<not> tierMatches ((u # us) ! j) titles)" by simp
      then show ?L by blast
    qed
    with False Cons.IH show ?thesis
      by (simp add: list_ex_includesStr)
  qed
qed

text \<open>
  C4. For every sequence of titles, \<open>pickHighestTier\<close> returns the tier that stands
  earliest in the configured priority list \<open>TIERS\<close> among the tiers whose normalized
  match key is a substring of at least one normalized title, and returns none exactly
  when no configured tier matches any title. So no tier standing before the returned
  one matches: a lower-priority tier is never preferred to a matching higher one.
\<close>

theorem pickHighestTier_earliest_match:
  "(pickHighestTier titles = None \<longleftrightarrow> (\<forall>t \<in> set TIERS. \<not> tierMatches t titles)) \<and>
   (pickHighestTier titles = Some t \<longleftrightarrow>
      (\<exists>i < length TIERS. TIERS ! i = t \<and> tierMatches t titles \<and>
         (\<forall>j < i. \<not> tierMatches (TIERS ! j) titles)))"
  unfolding pickHighestTier_def
  using pickFrom_None [of TIERS titles] pickFrom_Some [of TIERS titles t] by blast

theorem pickHighestTier_earliest_match_witness:
  "pickHighestTier [''Elite Trader Mentorship Bundle'', ''VIP Access Pass''] = Some (TIERS ! 0) \<and>
   (\<exists>i < length TIERS. TIERS ! i = TIERS ! 0 \<and>
      tierMatches (TIERS ! 0) [''Elite Trader Mentorship Bundle'', ''VIP Access Pass''] \<and>
      (\<forall>j < i. \<not> tierMatches (TIERS ! j)
         [''Elite Trader Mentorship Bundle'', ''VIP Access Pass''])) \<and>
   pickHighestTier [''Random Sticker Pack''] = None \<and>
   \<not> (\<exists>t \<in> set TIERS. tierMatches t [''Random Sticker Pack''])"
proof -
  have a: "pickHighestTier [''Elite Trader Mentorship Bundle'', ''VIP Access Pass'']
             = Some (TIERS ! 0)"
    by code_simp
  have b: "pickHighestTier [''Random Sticker Pack''] = None"
    by code_simp
  show ?thesis
    using a b
      pickHighestTier_earliest_match
        [of "[''Elite Trader Mentorship Bundle'', ''VIP Access Pass'']" "TIERS ! 0"]
      pickHighestTier_earliest_match [of "[''Random Sticker Pack'']" "TIERS ! 0"]
    by blast
qed

section \<open>The role reconciler: exclusivity\<close>

lemma rolesByName_name: "rolesByName g n = Some r \<Longrightarrow> name r = n"
  unfolding rolesByName_def by (auto dest!: map_of_SomeD)

lemma rolesAdd_ok:
  assumes "rolesAdd e uid r w = (None, w')"
  obtains rs where "members w uid = Some rs"
    and "w' = w\<lparr>calls := calls w @ [RolesAdd uid r], members := (members w)(uid \<mapsto> insert r rs)\<rparr>"
  using assms unfolding rolesAdd_def Let_def
  by (auto split: option.splits if_splits)

lemma rolesRemove_ok:
  assumes "rolesRemove e uid rs' w = (None, w')"
  obtains rs where "members w uid = Some rs"
    and "w' = w\<lparr>calls := calls w @ [RolesRemove uid rs'], members := (members w)(uid \<mapsto> rs - set rs')\<rparr>"
  using assms unfolding rolesRemove_def Let_def
  by (auto split: option.splits if_splits)

lemma thenDo_ok:
  assumes "thenDo r f = (None, w')"
  obtains w1 where "r = (None, w1)" and "f w1 = (None, w')"
  using assms unfolding thenDo_def by (auto split: prod.splits option.splits)

lemma set_map_filter_Some: "set (List.map_filter f xs) = {y. \<exists>x \<in> set xs. f x = Some y}"
  by (induction xs) (auto simp: map_filter_simps split: option.splits)

lemma set_toRemoveExclusive:
  "set (toRemoveExclusive g roleName) =
     {r. \<exists>n \<in> set ALL_ROLE_NAMES. n \<noteq> BASE_ROLE_NAME \<and> n \<noteq> roleName \<and> rolesByName g n = Some r}"
  unfolding toRemoveExclusive_def by (auto simp: set_map_filter_Some)

lemma setExclusive_ok:
  assumes ok: "setExclusiveTierRole e member g roleName w = (None, w')"
  obtains base target held where
    "rolesByName g BASE_ROLE_NAME = Some base" "rolesByName g roleName = Some target"
    "members w member = Some held"
    "members w' member = Some (insert target (insert base held) - set (toRemoveExclusive g roleName))"
    "calls w' = calls w @ [RolesAdd member base, RolesAdd member target] @
       (if toRemoveExclusive g roleName \<noteq> [] then [RolesRemove member (toRemoveExclusive g roleName)] else [])"
    "storeFile w' = storeFile w" "log w' = log w"
    "\<And>u. u \<noteq> member \<Longrightarrow> members w' u = members w u"
proof -
  from ok obtain base where base: "rolesByName g BASE_ROLE_NAME = Some base"
    unfolding setExclusiveTierRole_def by (auto split: option.splits)
  from ok base obtain target where target: "rolesByName g roleName = Some target"
    unfolding setExclusiveTierRole_def by (auto split: option.splits)
  from ok base target have
    "thenDo (rolesAdd e member base w) (\<lambda>w.
       thenDo (rolesAdd e member target w) (\<lambda>w.
         if toRemoveExclusive g roleName \<noteq> [] then rolesRemove e member (toRemoveExclusive g roleName) w
         else (None, w))) = (None, w')"
    unfolding setExclusiveTierRole_def Let_def by simp
  then obtain w1 w2 where s1: "rolesAdd e member base w = (None, w1)"
    and s2: "rolesAdd e member target w1 = (None, w2)"
    and s3: "(if toRemoveExclusive g roleName \<noteq> [] then rolesRemove e member (toRemoveExclusive g roleName) w2
         else (None, w2)) = (None, w')"
    by (elim thenDo_ok) auto
  from s1 obtain held where held: "members w member = Some held"
    and w1: "w1 = w\<lparr>calls := calls w @ [RolesAdd member base], members := (members w)(member \<mapsto> insert base held)\<rparr>"
    by (rule rolesAdd_ok)
  from s2 w1 have w2: "w2 = w1\<lparr>calls := calls w1 @ [RolesAdd member target], members := (members w1)(member \<mapsto> insert target (insert base held))\<rparr>"
    by (elim rolesAdd_ok) auto
  show thesis
  proof (cases "toRemoveExclusive g roleName = []")
    case True
    with s3 have "w' = w2" by simp
    with w1 w2 True base target held show thesis
      by (intro that[of base target held]) auto
  next
    case False
    with s3 have "rolesRemove e member (toRemoveExclusive g roleName) w2 = (None, w')" by simp
    then obtain rs where "members w2 member = Some rs" and
      w': "w' = w2\<lparr>calls := calls w2 @ [RolesRemove member (toRemoveExclusive g roleName)],
                   members := (members w2)(member \<mapsto> rs - set (toRemoveExclusive g roleName))\<rparr>"
      by (rule rolesRemove_ok)
    with w2 have "rs = insert target (insert base held)" by simp
    with w' w1 w2 False base target held show thesis
      by (intro that[of base target held]) auto
  qed
qed


lemma BASE_in_ALL: "BASE_ROLE_NAME \<in> set ALL_ROLE_NAMES"
  by (simp add: BASE_ROLE_NAME_def ALL_ROLE_NAMES_def TIERS_def)

text \<open>
  C2. When \<open>setExclusiveTierRole\<close> completes without throwing, the member holds the base
  role and the target role, and of the roles the guild has under the configured tier
  names the member holds exactly those two: a configured tier role is held iff its
  name is the base role's or the target's. Roles outside the tier configuration are as
  before (the target apart), and what the member lost is the other tier roles the
  member held. The calls were issued in the order add base, add target, remove the
  other tier roles; the last call is left out when the guild has none of them.
\<close>

theorem setExclusiveTierRole_exclusive:
  assumes ok: "setExclusiveTierRole e member g roleName w = (None, w')"
  shows "\<exists>base target held after.
     rolesByName g BASE_ROLE_NAME = Some base \<and> rolesByName g roleName = Some target \<and>
     members w member = Some held \<and> members w' member = Some after \<and>
     base \<in> after \<and> target \<in> after \<and>
     (\<forall>n \<in> set ALL_ROLE_NAMES. \<forall>r. rolesByName g n = Some r \<longrightarrow>
        (r \<in> after \<longleftrightarrow> n = BASE_ROLE_NAME \<or> n = roleName)) \<and>
     (\<forall>r. (\<forall>n \<in> set ALL_ROLE_NAMES. rolesByName g n \<noteq> Some r) \<longrightarrow>
        (r \<in> after \<longleftrightarrow> r \<in> held \<or> r = target)) \<and>
     held - after = held \<inter> set (toRemoveExclusive g roleName) \<and>
     calls w' = calls w @ [RolesAdd member base, RolesAdd member target] @
       (if toRemoveExclusive g roleName \<noteq> []
        then [RolesRemove member (toRemoveExclusive g roleName)] else [])"
proof -
  from ok obtain base target held where
    base: "rolesByName g BASE_ROLE_NAME = Some base" and
    target: "rolesByName g roleName = Some target" and
    held: "members w member = Some held" and
    after: "members w' member =
       Some (insert target (insert base held) - set (toRemoveExclusive g roleName))" and
    cs: "calls w' = calls w @ [RolesAdd member base, RolesAdd member target] @
       (if toRemoveExclusive g roleName \<noteq> []
        then [RolesRemove member (toRemoveExclusive g roleName)] else [])"
    by (rule setExclusive_ok)
  let ?rm = "set (toRemoveExclusive g roleName)"
  let ?after = "insert target (insert base held) - ?rm"
  have nb: "name base = BASE_ROLE_NAME" and nt: "name target = roleName"
    using base target by (auto dest: rolesByName_name)
  have rm: "\<And>r. r \<in> ?rm \<Longrightarrow> name r \<noteq> BASE_ROLE_NAME \<and> name r \<noteq> roleName \<and>
      (\<exists>n \<in> set ALL_ROLE_NAMES. rolesByName g n = Some r)"
    by (auto simp: set_toRemoveExclusive dest: rolesByName_name)
  have b_in: "base \<in> ?after" using rm nb by auto
  have t_in: "target \<in> ?after" using rm nt by auto
  have tiers: "\<forall>n \<in> set ALL_ROLE_NAMES. \<forall>r. rolesByName g n = Some r \<longrightarrow>
        (r \<in> ?after \<longleftrightarrow> n = BASE_ROLE_NAME \<or> n = roleName)"
  proof (intro ballI allI impI)
    fix n r assume n: "n \<in> set ALL_ROLE_NAMES" and r: "rolesByName g n = Some r"
    show "r \<in> ?after \<longleftrightarrow> n = BASE_ROLE_NAME \<or> n = roleName"
    proof (cases "n = BASE_ROLE_NAME \<or> n = roleName")
      case True
      with r base target have "r = base \<or> r = target" by auto
      with b_in t_in True show ?thesis by auto
    next
      case False
      with n r have "r \<in> ?rm" by (auto simp: set_toRemoveExclusive)
      with False show ?thesis by simp
    qed
  qed
  have others: "\<forall>r. (\<forall>n \<in> set ALL_ROLE_NAMES. rolesByName g n \<noteq> Some r) \<longrightarrow>
        (r \<in> ?after \<longleftrightarrow> r \<in> held \<or> r = target)"
  proof (intro allI impI)
    fix r assume nt: "\<forall>n \<in> set ALL_ROLE_NAMES. rolesByName g n \<noteq> Some r"
    then have "r \<notin> ?rm" using rm by blast
    moreover have "r \<noteq> base" using nt base BASE_in_ALL by blast
    ultimately show "r \<in> ?after \<longleftrightarrow> r \<in> held \<or> r = target" by auto
  qed
  have removed: "held - ?after = held \<inter> ?rm" by auto
  from base target held after b_in t_in tiers others removed cs show ?thesis
    by blast
qed

theorem setExclusiveTierRole_exclusive_witness:
  "setExclusiveTierRole exampleEnv ''u1'' exampleGuild ''VIP'' exampleWorld
     = (None, \<lparr>storeFile = Missing,
          members = [''u1'' \<mapsto> {Role ''2'' ''VIP'', Role ''1'' ''Members''}], log = [],
          calls = [RolesAdd ''u1'' (Role ''1'' ''Members''), RolesAdd ''u1'' (Role ''2'' ''VIP''),
                   RolesRemove ''u1'' [Role ''3'' ''Elite Member'']]\<rparr>) \<and>
   (\<exists>base target held after.
     rolesByName exampleGuild BASE_ROLE_NAME = Some base \<and>
     rolesByName exampleGuild ''VIP'' = Some target \<and>
     members exampleWorld ''u1'' = Some held \<and>
     members \<lparr>storeFile = Missing,
          members = [''u1'' \<mapsto> {Role ''2'' ''VIP'', Role ''1'' ''Members''}], log = [],
          calls = [RolesAdd ''u1'' (Role ''1'' ''Members''), RolesAdd ''u1'' (Role ''2'' ''VIP''),
                   RolesRemove ''u1'' [Role ''3'' ''Elite Member'']]\<rparr> ''u1'' = Some after \<and>
     base \<in> after \<and> target \<in> after \<and>
     (\<forall>n \<in> set ALL_ROLE_NAMES. \<forall>r. rolesByName exampleGuild n = Some r \<longrightarrow>
        (r \<in> after \<longleftrightarrow> n = BASE_ROLE_NAME \<or> n = ''VIP'')) \<and>
     (\<forall>r. (\<forall>n \<in> set ALL_ROLE_NAMES. rolesByName exampleGuild n \<noteq> Some r) \<longrightarrow>
        (r \<in> after \<longleftrightarrow> r \<in> held \<or> r = target)) \<and>
     held - after = held \<inter> set (toRemoveExclusive exampleGuild ''VIP'') \<and>
     calls \<lparr>storeFile = Missing,
          members = [''u1'' \<mapsto> {Role ''2'' ''VIP'', Role ''1'' ''Members''}], log = [],
          calls = [RolesAdd ''u1'' (Role ''1'' ''Members''), RolesAdd ''u1'' (Role ''2'' ''VIP''),
                   RolesRemove ''u1'' [Role ''3'' ''Elite Member'']]\<rparr>
       = calls exampleWorld @ [RolesAdd ''u1'' base, RolesAdd ''u1'' target] @
         (if toRemoveExclusive exampleGuild ''VIP'' \<noteq> []
          then [RolesRemove ''u1'' (toRemoveExclusive exampleGuild ''VIP'')] else []))"
proof -
  have h: "setExclusiveTierRole exampleEnv ''u1'' exampleGuild ''VIP'' exampleWorld
     = (None, \<lparr>storeFile = Missing,
          members = [''u1'' \<mapsto> {Role ''2'' ''VIP'', Role ''1'' ''Members''}], log = [],
          calls = [RolesAdd ''u1'' (Role ''1'' ''Members''), RolesAdd ''u1'' (Role ''2'' ''VIP''),
                   RolesRemove ''u1'' [Role ''3'' ''Elite Member'']]\<rparr>)"
    by (simp add: setExclusiveTierRole_def rolesByName_def BASE_ROLE_NAME_def thenDo_def
          rolesAdd_def rolesRemove_def toRemoveExclusive_def ALL_ROLE_NAMES_def TIERS_def
          map_filter_simps Let_def exampleEnv_def exampleGuild_def exampleWorld_def
          insert_Diff_if)
  show ?thesis
    by (rule conjI [OF h setExclusiveTierRole_exclusive [OF h]])
qed

section \<open>The effects of the platform calls and of one audit iteration\<close>

lemma postBotLog_fields [simp]:
  "storeFile (postBotLog ev lvl em w) = storeFile w"
  "members (postBotLog ev lvl em w) = members w"
  "calls (postBotLog ev lvl em w) = calls w"
  "log (postBotLog ev lvl em w) = log w @ [LogEvent ev lvl em]"
  by (simp_all add: postBotLog_def)

lemma loadEmailMap_postBotLog [simp]: "loadEmailMap (postBotLog ev lvl em w) = loadEmailMap w"
  by (simp add: loadEmailMap_def)

lemma rolesAdd_frame:
  assumes "rolesAdd e uid r w = (x, w')"
  shows "storeFile w' = storeFile w" "log w' = log w"
    "calls w' = calls w @ [RolesAdd uid r]" "\<And>u. u \<noteq> uid \<Longrightarrow> members w' u = members w u"
    "(members w' uid = None) = (members w uid = None)"
  using assms unfolding rolesAdd_def Let_def
  by (auto split: option.splits if_splits)

lemma rolesRemove_frame:
  assumes "rolesRemove e uid rs w = (x, w')"
  shows "storeFile w' = storeFile w" "log w' = log w"
    "calls w' = calls w @ [RolesRemove uid rs]" "\<And>u. u \<noteq> uid \<Longrightarrow> members w' u = members w u"
    "(members w' uid = None) = (members w uid = None)"
  using assms unfolding rolesRemove_def Let_def
  by (auto split: option.splits if_splits)

lemma saveEmailMap_frame:
  assumes "saveEmailMap e m w = (x, w')"
  shows "log w' = log w" "members w' = members w" "calls w' = calls w @ [WriteFile m]"
    "x = None \<Longrightarrow> storeFile w' = Stored m" "x \<noteq> None \<Longrightarrow> storeFile w' = storeFile w"
    "x = None \<longleftrightarrow> \<not> faults e (length (calls w))"
  using assms unfolding saveEmailMap_def Let_def
  by (auto split: if_splits)

lemma thenDo_cases:
  assumes "thenDo r f = (x, w')"
  obtains (threw) err where "r = (Some err, w')" "x = Some err"
        | (went) w1 where "r = (None, w1)" "f w1 = (x, w')"
  using assms unfolding thenDo_def by (auto split: prod.splits option.splits)

lemma downgradeToMembers_frame:
  assumes dg: "downgradeToMembers e uid g w = (x, w')"
  shows "storeFile w' = storeFile w \<and> log w' = log w \<and>
         (\<forall>u. u \<noteq> uid \<longrightarrow> members w' u = members w u)"
proof (cases "rolesByName g BASE_ROLE_NAME")
  case None
  with dg show ?thesis by (simp add: downgradeToMembers_def)
next
  case (Some base)
  with dg have td: "thenDo (rolesAdd e uid base w) (\<lambda>w.
      if toRemoveDowngrade g \<noteq> [] then rolesRemove e uid (toRemoveDowngrade g) w else (None, w))
      = (x, w')"
    by (simp add: downgradeToMembers_def Let_def)
  from td show ?thesis
  proof (cases rule: thenDo_cases)
    case (threw err)
    then show ?thesis using rolesAdd_frame [of e uid base w "Some err" w'] by simp
  next
    case (went w1)
    note f1 = rolesAdd_frame [OF went(1)]
    show ?thesis
    proof (cases "toRemoveDowngrade g = []")
      case True
      with went(2) have "w' = w1" by simp
      with f1 show ?thesis by simp
    next
      case False
      with went(2) have "rolesRemove e uid (toRemoveDowngrade g) w1 = (x, w')" by simp
      from rolesRemove_frame [OF this] f1 show ?thesis by simp
    qed
  qed
qed

lemma auditRecord_no_paid_date:
  assumes sub: "isSubscription rec = Some True" and nd: "noUsablePaidDate e rec"
  shows "auditRecord cfg e (email, rec) m w =
     (None, m,
      if truthy (discordUserId rec) then
        postBotLog (if truthy (lastPaidAt rec) then ''audit_skip_invalid_lastPaidAt''
                    else ''audit_skip_missing_lastPaidAt'') WARN (Some email) w
      else w)"
  using assms unfolding auditRecord_def noUsablePaidDate_def
  by (cases "lastPaidAt rec") auto


lemma auditRecord_effect:
  assumes ar: "auditRecord cfg e (k, r) m w = (x, m', w')"
  shows "(m' = m \<and> storeFile w' = storeFile w) \<or>
         (\<exists>r'. m' = AList.update k r' m \<and> tier r' = Some BASE_ROLE_NAME \<and>
               (storeFile w' = storeFile w \<or> storeFile w' = Stored m'))"
proof -
  have dg: "\<And>uid g w1 y w2. downgradeToMembers e uid g w1 = (y, w2) \<Longrightarrow> storeFile w2 = storeFile w1"
    using downgradeToMembers_frame by blast
  have sv: "\<And>mm w1 y w2. saveEmailMap e mm w1 = (y, w2) \<Longrightarrow>
      storeFile w2 = storeFile w1 \<or> storeFile w2 = Stored mm"
    using saveEmailMap_frame(4,5) by blast
  show ?thesis
    using ar unfolding auditRecord_def Let_def
    by (auto split: if_splits option.splits prod.splits dest!: dg sv)
qed


lemma loadEmailMap_storeFile:
  "storeFile w' = storeFile w \<Longrightarrow> loadEmailMap w' = loadEmailMap w"
  "storeFile w' = Stored m \<Longrightarrow> loadEmailMap w' = m"
  by (simp_all add: loadEmailMap_def)

lemma auditIteration_cases:
  assumes "auditIteration cfg e (k, r) m w = (x, m', w')"
  obtains (finished) "auditRecord cfg e (k, r) m w = (None, m', w')" "x = None"
        | (caught) err w1 where "auditRecord cfg e (k, r) m w = (Some err, m', w1)"
            "w' = postBotLog ''audit_error'' ERROR (Some k) w1" "x = None"
  using assms unfolding auditIteration_def tryCatch_def
  by (auto split: prod.splits option.splits)

lemma auditIteration_effect:
  assumes ai: "auditIteration cfg e (k, r) m w = (x, m', w')"
  shows "(m' = m \<and> storeFile w' = storeFile w) \<or>
         (\<exists>r'. m' = AList.update k r' m \<and> tier r' = Some BASE_ROLE_NAME \<and>
               (storeFile w' = storeFile w \<or> storeFile w' = Stored m'))"
  using ai
proof (cases rule: auditIteration_cases)
  case finished
  from auditRecord_effect [OF finished(1)] show ?thesis .
next
  case (caught err w1)
  from auditRecord_effect [OF caught(1)] caught(2) show ?thesis by simp
qed

lemma auditLoop_keeps_key:
  assumes quiet: "\<And>r' m w. (k, r') \<in> set es \<Longrightarrow>
      \<exists>w'. auditRecord cfg e (k, r') m w = (None, m, w') \<and> storeFile w' = storeFile w"
    and loop: "auditLoop cfg e es m w = (x, m', w')"
    and inv: "map_of m k = v" "map_of (loadEmailMap w) k = v"
  shows "map_of m' k = v \<and> map_of (loadEmailMap w') k = v"
  using quiet loop inv
proof (induction es arbitrary: m w)
  case Nil
  then show ?case by simp
next
  case (Cons entry es)
  obtain k' r' where entry: "entry = (k', r')" by (cases entry)
  obtain y m1 w1 where it: "auditIteration cfg e (k', r') m w = (y, m1, w1)"
    by (cases "auditIteration cfg e (k', r') m w") auto
  from it have y: "y = None" by (cases rule: auditIteration_cases) auto
  with Cons.prems(2) entry it have rest: "auditLoop cfg e es m1 w1 = (x, m', w')" by simp
  have step: "map_of m1 k = v \<and> map_of (loadEmailMap w1) k = v"
  proof (cases "k' = k")
    case True
    with Cons.prems(1) [of r' m w] entry obtain w2 where
      q: "auditRecord cfg e (k, r') m w = (None, m, w2)" "storeFile w2 = storeFile w"
      by auto
    with it True have "m1 = m" "w1 = w2"
      by (simp_all add: auditIteration_def tryCatch_def)
    with q Cons.prems(3,4) loadEmailMap_storeFile(1) [of w2 w] show ?thesis by simp
  next
    case False
    from auditIteration_effect [OF it] show ?thesis
    proof (elim disjE conjE exE)
      assume "m1 = m" "storeFile w1 = storeFile w"
      with Cons.prems(3,4) loadEmailMap_storeFile(1) [of w1 w] show ?thesis by simp
    next
      fix r'' assume m1: "m1 = AList.update k' r'' m" and "storeFile w1 = storeFile w"
      with False Cons.prems(3,4) loadEmailMap_storeFile(1) [of w1 w] show ?thesis
        by (simp add: update_conv')
    next
      fix r'' assume m1: "m1 = AList.update k' r'' m" and "storeFile w1 = Stored m1"
      with False Cons.prems(3,4) loadEmailMap_storeFile(2) [of w1 m1] show ?thesis
        by (simp add: update_conv')
    qed
  qed
  have "\<And>r' m w. (k, r') \<in> set es \<Longrightarrow>
      \<exists>w'. auditRecord cfg e (k, r') m w = (None, m, w') \<and> storeFile w' = storeFile w"
    using Cons.prems(1) by simp
  from Cons.IH [OF this rest] step show ?case by simp
qed

lemma auditLoop_no_abort: "fst (auditLoop cfg e es m w) = None"
proof (induction es arbitrary: m w)
  case Nil
  show ?case by simp
next
  case (Cons entry es)
  obtain k r where entry: "entry = (k, r)" by (cases entry)
  obtain y m1 w1 where it: "auditIteration cfg e (k, r) m w = (y, m1, w1)"
    by (cases "auditIteration cfg e (k, r) m w") auto
  from it have "y = None" by (cases rule: auditIteration_cases) auto
  with entry it Cons.IH [of m1 w1] show ?case by simp
qed

lemma runSubscriptionAudit_loop:
  obtains m' w2 where
    "auditLoop cfg e (loadEmailMap w) (loadEmailMap w) (postBotLog ''audit_start'' INFO None w)
       = (None, m', w2)"
    "runSubscriptionAudit cfg e w = (None, postBotLog ''audit_end'' INFO None w2)"
proof -
  let ?r = "auditLoop cfg e (loadEmailMap w) (loadEmailMap w) (postBotLog ''audit_start'' INFO None w)"
  obtain y m' w2 where r: "?r = (y, m', w2)" by (cases ?r) auto
  with auditLoop_no_abort [of cfg e "loadEmailMap w" "loadEmailMap w" "postBotLog ''audit_start'' INFO None w"]
  have "y = None" by simp
  with r have "runSubscriptionAudit cfg e w = (None, postBotLog ''audit_end'' INFO None w2)"
    by (simp add: runSubscriptionAudit_def Let_def)
  with r \<open>y = None\<close> show thesis using that by simp
qed


section \<open>Audit safety\<close>

text \<open>
  C1 (as amended). Let a stored record have \<open>isSubscription = true\<close> and a \<open>lastPaidAt\<close>
  that is missing or unparseable, whatever its other fields (\<open>updatedAt\<close> among them)
  hold. The iteration of the sweep that handles it, from any state, throws nothing,
  issues no membership or file call, and leaves the map, the file and every member's
  roles as they are. It logs one warning for the record's email when the record
  carries a non-empty \<open>discordUserId\<close>, and nothing otherwise: the check of
  \<open>discordUserId\<close> comes first and skips silently. And after a whole sweep over a store
  that holds the record, the store still holds it unchanged.
\<close>

theorem audit_skips_record_without_paid_date:
  assumes sub: "isSubscription rec = Some True" and nd: "noUsablePaidDate e rec"
  shows "(\<forall>m1 w1. \<exists>w1'. auditRecord cfg e (email, rec) m1 w1 = (None, m1, w1') \<and>
            calls w1' = calls w1 \<and> members w1' = members w1 \<and> storeFile w1' = storeFile w1 \<and>
            (if truthy (discordUserId rec)
             then \<exists>ev. log w1' = log w1 @ [LogEvent ev WARN (Some email)]
             else log w1' = log w1)) \<and>
         (distinct (map fst (loadEmailMap w)) \<longrightarrow> (email, rec) \<in> set (loadEmailMap w) \<longrightarrow>
            map_of (loadEmailMap (snd (runSubscriptionAudit cfg e w))) email = Some rec \<and>
            fst (runSubscriptionAudit cfg e w) = None)"
proof (intro conjI allI impI)
  fix m1 w1
  show "\<exists>w1'. auditRecord cfg e (email, rec) m1 w1 = (None, m1, w1') \<and>
            calls w1' = calls w1 \<and> members w1' = members w1 \<and> storeFile w1' = storeFile w1 \<and>
            (if truthy (discordUserId rec)
             then \<exists>ev. log w1' = log w1 @ [LogEvent ev WARN (Some email)]
             else log w1' = log w1)"
    by (simp add: auditRecord_no_paid_date [OF sub nd])
next
  assume d: "distinct (map fst (loadEmailMap w))" and mem: "(email, rec) \<in> set (loadEmailMap w)"
  obtain m' w2 where
    loop: "auditLoop cfg e (loadEmailMap w) (loadEmailMap w) (postBotLog ''audit_start'' INFO None w)
       = (None, m', w2)" and
    run: "runSubscriptionAudit cfg e w = (None, postBotLog ''audit_end'' INFO None w2)"
    by (rule runSubscriptionAudit_loop)
  have only: "\<And>r'. (email, r') \<in> set (loadEmailMap w) \<Longrightarrow> r' = rec"
    using d mem by (meson eq_key_imp_eq_value)
  have quiet: "\<exists>w'. auditRecord cfg e (email, r') m w0 = (None, m, w') \<and> storeFile w' = storeFile w0"
    if "(email, r') \<in> set (loadEmailMap w)" for r' m w0
  proof -
    from that only have "r' = rec" by blast
    then show ?thesis by (simp add: auditRecord_no_paid_date [OF sub nd])
  qed
  have v: "map_of (loadEmailMap w) email = Some rec"
    using d mem by simp
  from auditLoop_keeps_key [OF quiet loop v] v
  have "map_of (loadEmailMap w2) email = Some rec" by simp
  with run show "map_of (loadEmailMap (snd (runSubscriptionAudit cfg e w))) email = Some rec"
    by simp
  from run show "fst (runSubscriptionAudit cfg e w) = None" by simp
qed

theorem audit_skips_record_without_paid_date_witness:
  "isSubscription exampleRecord = Some True \<and>
   noUsablePaidDate exampleEnv exampleRecord \<and>
   distinct (map fst (loadEmailMap
      (exampleWorld\<lparr>storeFile := Stored [(''a@example.com'', exampleRecord)]\<rparr>))) \<and>
   (''a@example.com'', exampleRecord) \<in> set (loadEmailMap
      (exampleWorld\<lparr>storeFile := Stored [(''a@example.com'', exampleRecord)]\<rparr>)) \<and>
   map_of (loadEmailMap (snd (runSubscriptionAudit exampleConfig exampleEnv
      (exampleWorld\<lparr>storeFile := Stored [(''a@example.com'', exampleRecord)]\<rparr>))))
      ''a@example.com'' = Some exampleRecord \<and>
   fst (runSubscriptionAudit exampleConfig exampleEnv
      (exampleWorld\<lparr>storeFile := Stored [(''a@example.com'', exampleRecord)]\<rparr>)) = None \<and>
   (\<exists>w1'. auditRecord exampleConfig exampleEnv (''a@example.com'', exampleRecord) [] exampleWorld
            = (None, [], w1') \<and>
          calls w1' = calls exampleWorld \<and> members w1' = members exampleWorld \<and>
          storeFile w1' = storeFile exampleWorld \<and>
          (if truthy (discordUserId exampleRecord)
           then \<exists>ev. log w1' = log exampleWorld @ [LogEvent ev WARN (Some ''a@example.com'')]
           else log w1' = log exampleWorld))"
proof -
  let ?W = "exampleWorld\<lparr>storeFile := Stored [(''a@example.com'', exampleRecord)]\<rparr>"
  have h1: "isSubscription exampleRecord = Some True"
    by (simp add: exampleRecord_def)
  have h2: "noUsablePaidDate exampleEnv exampleRecord"
    by (simp add: noUsablePaidDate_def exampleRecord_def)
  have h3: "distinct (map fst (loadEmailMap ?W))"
    by (simp add: loadEmailMap_def)
  have h4: "(''a@example.com'', exampleRecord) \<in> set (loadEmailMap ?W)"
    by (simp add: loadEmailMap_def)
  note t = audit_skips_record_without_paid_date
             [OF h1 h2, of exampleConfig "''a@example.com''" ?W]
  from t h3 h4 have sweep:
    "map_of (loadEmailMap (snd (runSubscriptionAudit exampleConfig exampleEnv ?W)))
       ''a@example.com'' = Some exampleRecord \<and>
     fst (runSubscriptionAudit exampleConfig exampleEnv ?W) = None"
    by blast
  from t have step:
    "\<exists>w1'. auditRecord exampleConfig exampleEnv (''a@example.com'', exampleRecord) [] exampleWorld
            = (None, [], w1') \<and>
          calls w1' = calls exampleWorld \<and> members w1' = members exampleWorld \<and>
          storeFile w1' = storeFile exampleWorld \<and>
          (if truthy (discordUserId exampleRecord)
           then \<exists>ev. log w1' = log exampleWorld @ [LogEvent ev WARN (Some ''a@example.com'')]
           else log w1' = log exampleWorld)"
    by blast
  from h1 h2 h3 h4 sweep step show ?thesis by blast
qed

text \<open>
  C1 as the specification words it fails for a subscription record without a payment date that
  carries no \<open>discordUserId\<close>: the sweep skips it without any warning, and its whole log
  is the start and the end event.
\<close>

theorem audit_silent_skip_counterexample:
  "isSubscription (exampleRecord\<lparr>discordUserId := None\<rparr>) = Some True \<and>
   lastPaidAt (exampleRecord\<lparr>discordUserId := None\<rparr>) = None \<and>
   runSubscriptionAudit exampleConfig exampleEnv
      (exampleWorld\<lparr>storeFile :=
          Stored [(''a@example.com'', exampleRecord\<lparr>discordUserId := None\<rparr>)]\<rparr>)
   = (None, exampleWorld\<lparr>storeFile :=
          Stored [(''a@example.com'', exampleRecord\<lparr>discordUserId := None\<rparr>)],
        log := [LogEvent ''audit_start'' INFO None, LogEvent ''audit_end'' INFO None]\<rparr>)"
  by (simp add: runSubscriptionAudit_def loadEmailMap_def exampleWorld_def postBotLog_def
        auditIteration_def tryCatch_def auditRecord_def exampleRecord_def)

section \<open>The grace boundary\<close>

lemma daysBetween_less_iff: "daysBetween n t < d \<longleftrightarrow> n - t < d * 86400000"
proof -
  define x where "x = n - t"
  define q where "q = x div 86400000"
  define r where "r = x mod 86400000"
  have x: "x = 86400000 * q + r" unfolding q_def r_def by simp
  have r: "0 \<le> r" "r < 86400000" unfolding r_def by simp_all
  have "q < d \<longleftrightarrow> x < d * 86400000" using x r by arith
  then show ?thesis unfolding daysBetween_def q_def x_def by simp
qed

lemma auditRecord_young:
  assumes "isSubscription rec = Some True" "lastPaidAt rec = Some s" "s \<noteq> []"
    "parseDate e s = Some t" "daysBetween (now e) t < AUDIT_GRACE_DAYS cfg"
  shows "auditRecord cfg e (email, rec) m w = (None, m, w)"
  using assms unfolding auditRecord_def by (simp add: Let_def)

lemma auditRecord_overdue_present:
  assumes "isSubscription rec = Some True" "lastPaidAt rec = Some s" "s \<noteq> []"
    "parseDate e s = Some t" "AUDIT_GRACE_DAYS cfg \<le> daysBetween (now e) t"
    "discordUserId rec = Some uid" "uid \<noteq> []" "firstGuild e = Some g" "members w uid = Some held"
  shows "auditRecord cfg e (email, rec) m w =
     (let w1 = postBotLog ''audit_overdue_detected'' WARN (Some email) w in
      if AUDIT_DRY_RUN cfg then (None, m, w1)
      else
       (case downgradeToMembers e uid g w1 of
          (Some err, w2) \<Rightarrow> (Some err, m, w2)
        | (None, w2) \<Rightarrow>
           (let m' = AList.update email
                  (rec\<lparr>tier := Some BASE_ROLE_NAME,
                       lastAuditAt := Some (toISOString e (now e)),
                       lastAuditReason :=
                         Some (''overdue_'' @ showInt (daysBetween (now e) t) @ ''d''),
                       updatedAt := Some (toISOString e (now e))\<rparr>) m
            in case saveEmailMap e m' w2 of
                 (Some err, w3) \<Rightarrow> (Some err, m', w3)
               | (None, w3) \<Rightarrow>
                   (None, m', postBotLog ''audit_downgrade_success'' SUCCESS (Some email) w3))))"
  using assms unfolding auditRecord_def
  by (simp add: Let_def)





section \<open>Dry run\<close>

lemma log_append_nil: "w\<lparr>log := log w @ []\<rparr> = w"
  by simp

lemma auditRecord_dry_run_cases:
  assumes dry: "AUDIT_DRY_RUN cfg"
  shows "auditRecord cfg e (k, r) m w = (None, m, w) \<or>
         (\<exists>ev. auditRecord cfg e (k, r) m w = (None, m, postBotLog ev WARN (Some k) w))"
  using dry unfolding auditRecord_def Let_def
  by (auto split: option.splits)

lemma auditRecord_dry_run:
  assumes dry: "AUDIT_DRY_RUN cfg"
  shows "\<exists>evs. auditRecord cfg e (k, r) m w = (None, m, w\<lparr>log := log w @ evs\<rparr>)"
  using auditRecord_dry_run_cases [OF dry, of e k r m w]
proof (elim disjE exE)
  assume "auditRecord cfg e (k, r) m w = (None, m, w)"
  then have "auditRecord cfg e (k, r) m w = (None, m, w\<lparr>log := log w @ []\<rparr>)" by simp
  then show ?thesis by blast
next
  fix ev assume "auditRecord cfg e (k, r) m w = (None, m, postBotLog ev WARN (Some k) w)"
  then have "auditRecord cfg e (k, r) m w
      = (None, m, w\<lparr>log := log w @ [LogEvent ev WARN (Some k)]\<rparr>)"
    by (simp add: postBotLog_def)
  then show ?thesis by blast
qed

lemma auditIteration_dry_run:
  assumes dry: "AUDIT_DRY_RUN cfg"
  shows "\<exists>evs. auditIteration cfg e (k, r) m w = (None, m, w\<lparr>log := log w @ evs\<rparr>)"
  using auditRecord_dry_run [OF dry, of e k r m w]
  by (auto simp: auditIteration_def tryCatch_def)

lemma auditLoop_dry_run:
  assumes dry: "AUDIT_DRY_RUN cfg"
  shows "\<exists>evs. auditLoop cfg e es m w = (None, m, w\<lparr>log := log w @ evs\<rparr>)"
proof (induction es arbitrary: w)
  case Nil
  have "auditLoop cfg e [] m w = (None, m, w\<lparr>log := log w @ []\<rparr>)" by simp
  then show ?case by blast
next
  case (Cons entry es)
  obtain k r where entry: "entry = (k, r)" by (cases entry)
  obtain evs where it: "auditIteration cfg e (k, r) m w = (None, m, w\<lparr>log := log w @ evs\<rparr>)"
    using auditIteration_dry_run [OF dry] by blast
  obtain evs' where rest: "auditLoop cfg e es m (w\<lparr>log := log w @ evs\<rparr>)
      = (None, m, (w\<lparr>log := log w @ evs\<rparr>)\<lparr>log := log (w\<lparr>log := log w @ evs\<rparr>) @ evs'\<rparr>)"
    using Cons.IH by blast
  have "auditLoop cfg e (entry # es) m w = (None, m, w\<lparr>log := log w @ (evs @ evs')\<rparr>)"
    using entry it rest by simp
  then show ?case by blast
qed

lemma auditLoop_dry_run_detects:
  assumes dry: "AUDIT_DRY_RUN cfg"
    and mem: "(k, r) \<in> set es"
    and rec: "isSubscription r = Some True" "overdue cfg e r" "discordUserId r = Some uid" "uid \<noteq> []"
    and pres: "firstGuild e = Some g" "members w uid = Some held"
  shows "LogEvent ''audit_overdue_detected'' WARN (Some k)
           \<in> set (log (snd (snd (auditLoop cfg e es m w))))"
  using mem pres(2)
proof (induction es arbitrary: w)
  case Nil
  then show ?case by simp
next
  case (Cons entry es)
  obtain k' r' where entry: "entry = (k', r')" by (cases entry)
  obtain evs where it: "auditIteration cfg e (k', r') m w = (None, m, w\<lparr>log := log w @ evs\<rparr>)"
    using auditIteration_dry_run [OF dry] by blast
  let ?w1 = "w\<lparr>log := log w @ evs\<rparr>"
  obtain evs' where rest: "auditLoop cfg e es m ?w1 = (None, m, ?w1\<lparr>log := log ?w1 @ evs'\<rparr>)"
    using auditLoop_dry_run [OF dry] by blast
  have whole: "auditLoop cfg e (entry # es) m w = auditLoop cfg e es m ?w1"
    using entry it by simp
  show ?case
  proof (cases "entry = (k, r)")
    case True
    from rec(2) obtain s t where lp: "lastPaidAt r = Some s" "s \<noteq> []" "parseDate e s = Some t"
      "AUDIT_GRACE_DAYS cfg \<le> daysBetween (now e) t"
      unfolding overdue_def by (auto split: option.splits)
    from auditRecord_overdue_present [OF rec(1) lp rec(3,4) pres(1) Cons.prems(2), of k m] dry
    have "auditRecord cfg e (k, r) m w
        = (None, m, postBotLog ''audit_overdue_detected'' WARN (Some k) w)"
      by (simp add: Let_def)
    then have "auditIteration cfg e (k, r) m w
        = (None, m, postBotLog ''audit_overdue_detected'' WARN (Some k) w)"
      by (simp add: auditIteration_def tryCatch_def)
    with it True entry have "?w1 = postBotLog ''audit_overdue_detected'' WARN (Some k) w"
      by simp
    then have "LogEvent ''audit_overdue_detected'' WARN (Some k) \<in> set (log ?w1)"
      by (metis postBotLog_fields(4) in_set_conv_decomp)
    with whole rest show ?thesis by auto
  next
    case False
    with Cons.prems(1) have "(k, r) \<in> set es" by simp
    moreover from Cons.prems(2) have "members ?w1 uid = Some held" by simp
    ultimately have "LogEvent ''audit_overdue_detected'' WARN (Some k)
           \<in> set (log (snd (snd (auditLoop cfg e es m ?w1))))"
      by (rule Cons.IH)
    with whole show ?thesis by simp
  qed
qed





section \<open>Failure isolation of the sweep\<close>

lemma auditLoop_append:
  "auditLoop cfg e (xs @ ys) m w =
     (case auditLoop cfg e xs m w of
        (Some err, m1, w1) \<Rightarrow> (Some err, m1, w1)
      | (None, m1, w1) \<Rightarrow> auditLoop cfg e ys m1 w1)"
  by (induction xs arbitrary: m w) (auto split: prod.splits option.splits)

lemma auditRecord_log:
  assumes ar: "auditRecord cfg e (k, r) m w = (x, m', w')"
  shows "\<exists>evs. log w' = log w @ evs"
proof -
  have dg: "\<And>uid g w1 y w2. downgradeToMembers e uid g w1 = (y, w2) \<Longrightarrow> log w2 = log w1"
    using downgradeToMembers_frame by blast
  have sv: "\<And>mm w1 y w2. saveEmailMap e mm w1 = (y, w2) \<Longrightarrow> log w2 = log w1"
    using saveEmailMap_frame(1) by blast
  show ?thesis
    using ar unfolding auditRecord_def Let_def
    by (auto split: if_splits option.splits prod.splits dest!: dg sv)
qed

lemma auditIteration_log:
  assumes ai: "auditIteration cfg e (k, r) m w = (x, m', w')"
  shows "\<exists>evs. log w' = log w @ evs"
  using ai
proof (cases rule: auditIteration_cases)
  case finished
  then show ?thesis using auditRecord_log by blast
next
  case (caught err w1)
  from auditRecord_log [OF caught(1)] obtain evs where "log w1 = log w @ evs" by blast
  with caught(2) have "log w' = log w @ (evs @ [LogEvent ''audit_error'' ERROR (Some k)])"
    by simp
  then show ?thesis by blast
qed

lemma auditLoop_log:
  assumes "auditLoop cfg e es m w = (x, m', w')"
  shows "\<exists>evs. log w' = log w @ evs"
  using assms
proof (induction es arbitrary: m w)
  case Nil
  then show ?case by simp
next
  case (Cons entry es)
  obtain k r where entry: "entry = (k, r)" by (cases entry)
  obtain y m1 w1 where it: "auditIteration cfg e (k, r) m w = (y, m1, w1)"
    by (cases "auditIteration cfg e (k, r) m w") auto
  from it have y: "y = None" by (cases rule: auditIteration_cases) auto
  with Cons.prems entry it have rest: "auditLoop cfg e es m1 w1 = (x, m', w')" by simp
  from auditIteration_log [OF it] obtain evs where "log w1 = log w @ evs" by blast
  moreover from Cons.IH [OF rest] obtain evs' where "log w' = log w1 @ evs'" by blast
  ultimately have "log w' = log w @ (evs @ evs')" by simp
  then show ?case by blast
qed



section \<open>The verification workflow: what a successful run persists\<close>

lemma verifyTry_Verified:
  assumes "verifyTry e fetchItems g email uid tag emailMap w = (Inr Verified, w')"
  shows "\<exists>items t w3.
      fetchItems email = Inr items \<and> pickHighestTier (map title items) = Some t \<and>
      setExclusiveTierRole e uid g (role t)
        (postBotLog ''tier_matched'' INFO (Some email)
          (postBotLog ''shopify_line_items'' INFO (Some email) w)) = (None, w3) \<and>
      storeFile w' = Stored (AList.update email
         \<lparr>discordUserId = Some uid, userTag = Some tag, tier = Some (role t),
          isSubscription = Some (list_ex (\<lambda>li. isTierTitleMatch (title li) (product t)
                                        \<and> itemIsSubscription li = True) items),
          lastPaidAt = lastPaidAtIso e items,
          updatedAt = Some (toISOString e (now e)),
          lastAuditAt = None, lastAuditReason = None\<rparr> emailMap)"
proof -
  have sv: "\<And>mm w1 w2. saveEmailMap e mm w1 = (None, w2) \<Longrightarrow> storeFile w2 = Stored mm"
    using saveEmailMap_frame(4) by blast
  show ?thesis
    using assms unfolding verifyTry_def Let_def
    by (auto split: sum.splits if_splits option.splits prod.splits dest!: sv)
qed

lemma verify_Verified:
  assumes "verify e fetchItems g raw uid tag w = (Verified, w')"
  shows "\<exists>items t.
      fetchItems (normEmail raw) = Inr items \<and> pickHighestTier (map title items) = Some t \<and>
      storeFile w' = Stored (AList.update (normEmail raw)
         \<lparr>discordUserId = Some uid, userTag = Some tag, tier = Some (role t),
          isSubscription = Some (list_ex (\<lambda>li. isTierTitleMatch (title li) (product t)
                                        \<and> itemIsSubscription li = True) items),
          lastPaidAt = lastPaidAtIso e items,
          updatedAt = Some (toISOString e (now e)),
          lastAuditAt = None, lastAuditReason = None\<rparr> (loadEmailMap w))"
proof -
  from assms obtain w1 where
    "verifyTry e fetchItems g (normEmail raw) uid tag (loadEmailMap w)
       (postBotLog ''verify_requested'' INFO (Some (normEmail raw)) w) = (Inr Verified, w1)"
    "w' = w1"
    unfolding verify_def Let_def
    by (auto split: if_splits prod.splits sum.splits)
  with verifyTry_Verified [of e fetchItems g "normEmail raw" uid tag "loadEmailMap w"
      "postBotLog ''verify_requested'' INFO (Some (normEmail raw)) w" w']
  show ?thesis by blast
qed


lemma mathMax_None: "mathMax None ds = None"
  by (induction ds) simp_all

lemma mathMax_Some:
  "mathMax (Some a) ds =
     (if None \<in> set ds then None else Some (Max (insert a (the ` set ds))))"
proof (induction ds arbitrary: a)
  case Nil
  show ?case by simp
next
  case (Cons d ds)
  show ?case
  proof (cases d)
    case None
    then show ?thesis by (simp add: mathMax_None)
  next
    case (Some b)
    have "Max (insert (max a b) (the ` set ds)) = Max (insert a (insert b (the ` set ds)))"
      by (cases "set ds = {}") (simp_all add: max.assoc max.commute max.left_commute)
    with Some Cons.IH [of "max a b"] show ?thesis by simp
  qed
qed

lemma lastPaidAtIso_newest:
  "lastPaidAtIso e items =
     (let ds = filter (\<lambda>d. d \<noteq> []) (List.map_filter paidAt items) in
      if ds = [] \<or> (\<exists>d \<in> set ds. parseDate e d = None) then None
      else Some (toISOString e (Max ((\<lambda>d. the (parseDate e d)) ` set ds))))"
proof -
  define ds where "ds = filter (\<lambda>d. d \<noteq> []) (List.map_filter paidAt items)"
  show ?thesis
  proof (cases ds)
    case Nil
    then show ?thesis unfolding lastPaidAtIso_def Let_def ds_def [symmetric] by simp
  next
    case (Cons d ds')
    show ?thesis
    proof (cases "\<exists>d \<in> set ds. parseDate e d = None")
      case True
      then have "mathMax (parseDate e d) (map (parseDate e) ds') = None"
        using Cons by (cases "parseDate e d") (force simp: mathMax_None mathMax_Some)+
      with Cons True show ?thesis
        unfolding lastPaidAtIso_def Let_def ds_def [symmetric] by simp
    next
      case False
      then obtain a where a: "parseDate e d = Some a" using Cons by auto
      from False Cons have nn: "None \<notin> set (map (parseDate e) ds')" by auto
      have "insert a (the ` set (map (parseDate e) ds')) = (\<lambda>d. the (parseDate e d)) ` set ds"
        using Cons a by auto
      with a nn have "mathMax (parseDate e d) (map (parseDate e) ds')
          = Some (Max ((\<lambda>d. the (parseDate e d)) ` set ds))"
        by (simp only: mathMax_Some if_False)
      with Cons False show ?thesis
        unfolding lastPaidAtIso_def Let_def ds_def [symmetric] by simp
    qed
  qed
qed

lemma exampleVerify_Verified:
  "verify exampleEnv (\<lambda>email. Inr exampleItems) exampleGuild
       ''buyer@example.com'' ''u1'' ''user#0001'' exampleWorld
   = (Verified, snd (verify exampleEnv (\<lambda>email. Inr exampleItems) exampleGuild
       ''buyer@example.com'' ''u1'' ''user#0001'' exampleWorld))"
proof -
  have "fst (verify exampleEnv (\<lambda>email. Inr exampleItems) exampleGuild
       ''buyer@example.com'' ''u1'' ''user#0001'' exampleWorld) = Verified"
    by (simp add: verify_def verifyTry_def normEmail_def trim_def toLowerCase_def
        toLowerChar_def isWhiteSpace_def loadEmailMap_def exampleWorld_def postBotLog_def
        exampleItems_def pickHighestTier_def TIERS_def normalize_def
        setExclusiveTierRole_def rolesByName_def BASE_ROLE_NAME_def thenDo_def
        rolesAdd_def rolesRemove_def toRemoveExclusive_def ALL_ROLE_NAMES_def
        Let_def exampleEnv_def exampleGuild_def saveEmailMap_def)
  then show ?thesis by (metis prod.collapse)
qed

lemma exampleNorm: "normEmail ''buyer@example.com'' = ''buyer@example.com''"
  by (simp add: normEmail_def trim_def toLowerCase_def toLowerChar_def isWhiteSpace_def)

lemma exampleNewest:
  "lastPaidAtIso exampleEnv exampleItems = Some ''2024-03-01T00:00:00.000Z''"
  by (simp add: lastPaidAtIso_def exampleItems_def exampleEnv_def exampleDate_def
        exampleIso_def)

section \<open>The payment date a verification persists\<close>




section \<open>Binding conflict\<close>

text \<open>
  C5. Let the store hold a record under an email that passes the handler's syntax check
  (non-empty, containing \<open>@\<close>), bound to a user \<open>a\<close>. A verify call whose normalized
  email is that one, from a user other than \<open>a\<close>, ends in the conflict outcome; all it
  does is log the request and the conflict: the file, every member's roles and the list
  of issued membership and file calls are as before.
\<close>

theorem verify_binding_conflict:
  assumes valid: "normEmail raw \<noteq> []" "includesStr (normEmail raw) ''@''"
    and bound: "map_of (loadEmailMap w) (normEmail raw) = Some rec"
      "discordUserId rec = Some a" "a \<noteq> uid"
  shows "verify e fetchItems g raw uid tag w =
           (AlreadyLinkedConflict,
            w\<lparr>log := log w @
               [LogEvent ''verify_requested'' INFO (Some (normEmail raw)),
                LogEvent ''verify_email_already_linked'' WARN (Some (normEmail raw))]\<rparr>) \<and>
         storeFile (snd (verify e fetchItems g raw uid tag w)) = storeFile w \<and>
         members (snd (verify e fetchItems g raw uid tag w)) = members w \<and>
         calls (snd (verify e fetchItems g raw uid tag w)) = calls w"
  using assms unfolding verify_def Let_def
  by (simp add: postBotLog_def)

theorem verify_binding_conflict_witness:
  "normEmail ''  A@Example.com '' = ''a@example.com'' \<and>
   includesStr (normEmail ''  A@Example.com '') ''@'' \<and>
   map_of (loadEmailMap (exampleWorld\<lparr>storeFile := Stored [(''a@example.com'', exampleRecord)]\<rparr>))
     (normEmail ''  A@Example.com '') = Some exampleRecord \<and>
   discordUserId exampleRecord = Some ''u1'' \<and>
   verify exampleEnv (\<lambda>email. Inr exampleItems) exampleGuild ''  A@Example.com '' ''u2''
       ''other#0002''
       (exampleWorld\<lparr>storeFile := Stored [(''a@example.com'', exampleRecord)]\<rparr>) =
     (AlreadyLinkedConflict,
      exampleWorld\<lparr>storeFile := Stored [(''a@example.com'', exampleRecord)],
        log := log (exampleWorld\<lparr>storeFile := Stored [(''a@example.com'', exampleRecord)]\<rparr>) @
          [LogEvent ''verify_requested'' INFO (Some (normEmail ''  A@Example.com '')),
           LogEvent ''verify_email_already_linked'' WARN
             (Some (normEmail ''  A@Example.com ''))]\<rparr>) \<and>
   calls (snd (verify exampleEnv (\<lambda>email. Inr exampleItems) exampleGuild ''  A@Example.com ''
       ''u2'' ''other#0002''
       (exampleWorld\<lparr>storeFile := Stored [(''a@example.com'', exampleRecord)]\<rparr>))) = []"
proof -
  let ?W = "exampleWorld\<lparr>storeFile := Stored [(''a@example.com'', exampleRecord)]\<rparr>"
  have n: "normEmail ''  A@Example.com '' = ''a@example.com''"
    by (simp add: normEmail_def trim_def toLowerCase_def toLowerChar_def isWhiteSpace_def)
  have v1: "normEmail ''  A@Example.com '' \<noteq> []" by (simp add: n)
  have v2: "includesStr (normEmail ''  A@Example.com '') ''@''" by (simp add: n)
  have b1: "map_of (loadEmailMap ?W) (normEmail ''  A@Example.com '') = Some exampleRecord"
    by (simp add: n loadEmailMap_def)
  have b2: "discordUserId exampleRecord = Some ''u1''" by (simp add: exampleRecord_def)
  have b3: "''u1'' \<noteq> ''u2''" by simp
  note t = verify_binding_conflict [OF v1 v2 b1 b2 b3, of exampleEnv "\<lambda>email. Inr exampleItems"
      exampleGuild "''other#0002''"]
  have c: "calls ?W = []" by (simp add: exampleWorld_def)
  from t n v2 b1 b2 c show ?thesis by simp
qed

section \<open>The gateway of the repository supplies no payment date\<close>

lemma getPaidLineItemsByEmail_paidAt:
  assumes "getPaidLineItemsByEmail shopifyGraphQL email = Inr items"
  shows "\<forall>li \<in> set items. paidAt li = None"
  using assms unfolding getPaidLineItemsByEmail_def toItem_def
  by (auto split: sum.splits simp: Let_def)

lemma map_filter_paidAt_None:
  "\<forall>li \<in> set items. paidAt li = None \<Longrightarrow> List.map_filter paidAt items = []"
  by (induction items) (simp_all add: map_filter_simps)

lemma lastPaidAtIso_no_paidAt:
  "\<forall>li \<in> set items. paidAt li = None \<Longrightarrow> lastPaidAtIso e items = None"
  by (simp add: lastPaidAtIso_def map_filter_paidAt_None)

lemma auditRecord_not_subscription:
  "isSubscription r \<noteq> Some True \<Longrightarrow> auditRecord cfg e (k, r) m w = (None, m, w)"
  by (simp add: auditRecord_def)

lemma auditRecord_null_lastPaidAt:
  assumes "lastPaidAt r = None"
  shows "\<exists>w'. auditRecord cfg e (k, r) m w = (None, m, w') \<and>
           calls w' = calls w \<and> members w' = members w \<and> storeFile w' = storeFile w"
proof (cases "isSubscription r = Some True")
  case True
  from assms have "noUsablePaidDate e r" by (simp add: noUsablePaidDate_def)
  from auditRecord_no_paid_date [OF True this, of cfg k m w] show ?thesis by simp
next
  case False
  then show ?thesis by (simp add: auditRecord_not_subscription)
qed

lemma exampleShopify_items:
  "getPaidLineItemsByEmail exampleShopify ''buyer@example.com'' =
     Inr [\<lparr>title = ''VIP Access Pass'', itemIsSubscription = True,
           sellingPlanName = Some ''Monthly'', paidAt = None\<rparr>,
          \<lparr>title = ''Random Sticker Pack'', itemIsSubscription = False,
           sellingPlanName = None, paidAt = None\<rparr>]"
  by (simp add: getPaidLineItemsByEmail_def exampleShopify_def toItem_def)

lemma exampleShopifyVerify_Verified:
  "verify exampleEnv (getPaidLineItemsByEmail exampleShopify) exampleGuild
       ''buyer@example.com'' ''u1'' ''user#0001'' exampleWorld
   = (Verified, snd (verify exampleEnv (getPaidLineItemsByEmail exampleShopify) exampleGuild
       ''buyer@example.com'' ''u1'' ''user#0001'' exampleWorld))"
proof -
  have "fst (verify exampleEnv (getPaidLineItemsByEmail exampleShopify) exampleGuild
       ''buyer@example.com'' ''u1'' ''user#0001'' exampleWorld) = Verified"
    by (simp add: verify_def verifyTry_def normEmail_def trim_def toLowerCase_def
        toLowerChar_def isWhiteSpace_def loadEmailMap_def exampleWorld_def postBotLog_def
        getPaidLineItemsByEmail_def exampleShopify_def toItem_def
        pickHighestTier_def TIERS_def normalize_def
        setExclusiveTierRole_def rolesByName_def BASE_ROLE_NAME_def thenDo_def
        rolesAdd_def rolesRemove_def toRemoveExclusive_def ALL_ROLE_NAMES_def
        Let_def exampleEnv_def exampleGuild_def saveEmailMap_def)
  then show ?thesis by (metis prod.collapse)
qed

text \<open>
  C9. Every line item that \<open>getPaidLineItemsByEmail\<close> returns is built from a title
  and a selling plan name alone and carries no \<open>paidAt\<close> (the query asks for no payment
  date). So every record that a successful verification through this gateway persists
  has \<open>lastPaidAt = null\<close>; and whatever the configuration and the environment of the
  audit, the iteration of a sweep that handles such a record throws nothing, leaves the
  map alone, issues no membership or file call and leaves the file and every member's
  roles as they are: the record is never downgraded by the audit.
\<close>

theorem shopify_items_carry_no_paidAt:
  "(\<forall>items. getPaidLineItemsByEmail shopifyGraphQL email = Inr items \<longrightarrow>
      (\<forall>li \<in> set items. paidAt li = None)) \<and>
   (\<forall>w'. verify e (getPaidLineItemsByEmail shopifyGraphQL) g raw uid tag w = (Verified, w') \<longrightarrow>
      (\<exists>r. map_of (loadEmailMap w') (normEmail raw) = Some r \<and> lastPaidAt r = None \<and>
           (\<forall>cfg e' k m1 w1. \<exists>w1'.
               auditRecord cfg e' (k, r) m1 w1 = (None, m1, w1') \<and>
               calls w1' = calls w1 \<and> members w1' = members w1 \<and>
               storeFile w1' = storeFile w1)))"
proof (intro conjI allI impI)
  fix items assume "getPaidLineItemsByEmail shopifyGraphQL email = Inr items"
  then show "\<forall>li \<in> set items. paidAt li = None" by (rule getPaidLineItemsByEmail_paidAt)
next
  fix w'
  assume v: "verify e (getPaidLineItemsByEmail shopifyGraphQL) g raw uid tag w = (Verified, w')"
  from verify_Verified [OF v]
  show "\<exists>r. map_of (loadEmailMap w') (normEmail raw) = Some r \<and> lastPaidAt r = None \<and>
           (\<forall>cfg e' k m1 w1. \<exists>w1'.
               auditRecord cfg e' (k, r) m1 w1 = (None, m1, w1') \<and>
               calls w1' = calls w1 \<and> members w1' = members w1 \<and>
               storeFile w1' = storeFile w1)"
  proof (elim exE conjE)
    fix items t
    let ?r = "\<lparr>discordUserId = Some uid, userTag = Some tag, tier = Some (role t),
          isSubscription = Some (list_ex (\<lambda>li. isTierTitleMatch (title li) (product t)
                                        \<and> itemIsSubscription li = True) items),
          lastPaidAt = lastPaidAtIso e items,
          updatedAt = Some (toISOString e (now e)),
          lastAuditAt = None, lastAuditReason = None\<rparr>"
    assume f: "getPaidLineItemsByEmail shopifyGraphQL (normEmail raw) = Inr items"
      and st: "storeFile w' = Stored (AList.update (normEmail raw) ?r (loadEmailMap w))"
    from st have m: "map_of (loadEmailMap w') (normEmail raw) = Some ?r"
      by (simp add: loadEmailMap_def update_conv')
    from getPaidLineItemsByEmail_paidAt [OF f] have "lastPaidAtIso e items = None"
      by (rule lastPaidAtIso_no_paidAt)
    then have l: "lastPaidAt ?r = None" by simp
    have "\<forall>cfg e' k m1 w1. \<exists>w1'.
               auditRecord cfg e' (k, ?r) m1 w1 = (None, m1, w1') \<and>
               calls w1' = calls w1 \<and> members w1' = members w1 \<and>
               storeFile w1' = storeFile w1"
      using auditRecord_null_lastPaidAt [OF l] by blast
    with m l show ?thesis by (intro exI [of _ ?r]) simp
  qed
qed

theorem shopify_items_carry_no_paidAt_witness:
  "getPaidLineItemsByEmail exampleShopify ''buyer@example.com'' =
     Inr [\<lparr>title = ''VIP Access Pass'', itemIsSubscription = True,
           sellingPlanName = Some ''Monthly'', paidAt = None\<rparr>,
          \<lparr>title = ''Random Sticker Pack'', itemIsSubscription = False,
           sellingPlanName = None, paidAt = None\<rparr>] \<and>
   verify exampleEnv (getPaidLineItemsByEmail exampleShopify) exampleGuild
       ''buyer@example.com'' ''u1'' ''user#0001'' exampleWorld
   = (Verified, snd (verify exampleEnv (getPaidLineItemsByEmail exampleShopify) exampleGuild
       ''buyer@example.com'' ''u1'' ''user#0001'' exampleWorld)) \<and>
   (\<exists>r. map_of (loadEmailMap (snd (verify exampleEnv (getPaidLineItemsByEmail exampleShopify)
             exampleGuild ''buyer@example.com'' ''u1'' ''user#0001'' exampleWorld)))
           (normEmail ''buyer@example.com'') = Some r \<and>
        lastPaidAt r = None \<and>
        (\<forall>cfg e' k m1 w1. \<exists>w1'.
               auditRecord cfg e' (k, r) m1 w1 = (None, m1, w1') \<and>
               calls w1' = calls w1 \<and> members w1' = members w1 \<and>
               storeFile w1' = storeFile w1))"
proof (intro conjI)
  show "getPaidLineItemsByEmail exampleShopify ''buyer@example.com'' =
     Inr [\<lparr>title = ''VIP Access Pass'', itemIsSubscription = True,
           sellingPlanName = Some ''Monthly'', paidAt = None\<rparr>,
          \<lparr>title = ''Random Sticker Pack'', itemIsSubscription = False,
           sellingPlanName = None, paidAt = None\<rparr>]"
    by (rule exampleShopify_items)
  show "verify exampleEnv (getPaidLineItemsByEmail exampleShopify) exampleGuild
       ''buyer@example.com'' ''u1'' ''user#0001'' exampleWorld
   = (Verified, snd (verify exampleEnv (getPaidLineItemsByEmail exampleShopify) exampleGuild
       ''buyer@example.com'' ''u1'' ''user#0001'' exampleWorld))"
    by (rule exampleShopifyVerify_Verified)
  note t = shopify_items_carry_no_paidAt [of exampleShopify "''buyer@example.com''" exampleEnv
      exampleGuild "''buyer@example.com''" "''u1''" "''user#0001''" exampleWorld]
  from t have "\<forall>w'. verify exampleEnv (getPaidLineItemsByEmail exampleShopify) exampleGuild
       ''buyer@example.com'' ''u1'' ''user#0001'' exampleWorld = (Verified, w') \<longrightarrow>
      (\<exists>r. map_of (loadEmailMap w') (normEmail ''buyer@example.com'') = Some r \<and>
           lastPaidAt r = None \<and>
           (\<forall>cfg e' k m1 w1. \<exists>w1'.
               auditRecord cfg e' (k, r) m1 w1 = (None, m1, w1') \<and>
               calls w1' = calls w1 \<and> members w1' = members w1 \<and>
               storeFile w1' = storeFile w1))"
    by (rule conjunct2)
  from this [rule_format, OF exampleShopifyVerify_Verified]
  show "\<exists>r. map_of (loadEmailMap (snd (verify exampleEnv (getPaidLineItemsByEmail exampleShopify)
             exampleGuild ''buyer@example.com'' ''u1'' ''user#0001'' exampleWorld)))
           (normEmail ''buyer@example.com'') = Some r \<and>
        lastPaidAt r = None \<and>
        (\<forall>cfg e' k m1 w1. \<exists>w1'.
               auditRecord cfg e' (k, r) m1 w1 = (None, m1, w1') \<and>
               calls w1' = calls w1 \<and> members w1' = members w1 \<and>
               storeFile w1' = storeFile w1)" .
qed

section \<open>A missing or corrupted store file\<close>

lemma postBotLog_storeFile:
  "postBotLog ev lvl em (w\<lparr>storeFile := X\<rparr>) = (postBotLog ev lvl em w)\<lparr>storeFile := X\<rparr>"
  by (simp add: postBotLog_def)

lemma rolesAdd_storeFile:
  "rolesAdd e uid r (w\<lparr>storeFile := X\<rparr>) =
     (case rolesAdd e uid r w of (x, w') \<Rightarrow> (x, w'\<lparr>storeFile := X\<rparr>))"
  by (simp add: rolesAdd_def Let_def split: option.splits)

lemma rolesRemove_storeFile:
  "rolesRemove e uid rs (w\<lparr>storeFile := X\<rparr>) =
     (case rolesRemove e uid rs w of (x, w') \<Rightarrow> (x, w'\<lparr>storeFile := X\<rparr>))"
  by (simp add: rolesRemove_def Let_def split: option.splits)

lemma setExclusiveTierRole_storeFile:
  "setExclusiveTierRole e uid g roleName (w\<lparr>storeFile := X\<rparr>) =
     (case setExclusiveTierRole e uid g roleName w of (x, w') \<Rightarrow> (x, w'\<lparr>storeFile := X\<rparr>))"
  by (simp add: setExclusiveTierRole_def thenDo_def Let_def rolesAdd_storeFile
        rolesRemove_storeFile split: option.splits prod.splits)

lemma saveEmailMap_storeFile:
  "saveEmailMap e m (w\<lparr>storeFile := X\<rparr>) =
     (case saveEmailMap e m w of
        (None, w') \<Rightarrow> (None, w')
      | (Some err, w') \<Rightarrow> (Some err, w'\<lparr>storeFile := X\<rparr>))"
  by (simp add: saveEmailMap_def Let_def)

lemma verifyTry_storeFile:
  "verifyTry e f g email uid tag em (w\<lparr>storeFile := X\<rparr>) =
     (case verifyTry e f g email uid tag em w of
        (r, w') \<Rightarrow> (r, if r = Inr Verified then w' else w'\<lparr>storeFile := X\<rparr>))"
proof (cases "f email")
  case (Inl err)
  then show ?thesis by (simp add: verifyTry_def)
next
  case (Inr items)
  show ?thesis
  proof (cases "map title items = []")
    case True
    with Inr show ?thesis by (simp add: verifyTry_def Let_def postBotLog_storeFile)
  next
    case False
    show ?thesis
    proof (cases "pickHighestTier (map title items)")
      case None
      with Inr False show ?thesis by (simp add: verifyTry_def Let_def postBotLog_storeFile)
    next
      case (Some t)
      let ?w2 = "postBotLog ''tier_matched'' INFO (Some email)
                   (postBotLog ''shopify_line_items'' INFO (Some email) w)"
      let ?m = "AList.update email
                  \<lparr>discordUserId = Some uid, userTag = Some tag, tier = Some (role t),
                   isSubscription = Some (list_ex (\<lambda>li. isTierTitleMatch (title li) (product t)
                                        \<and> itemIsSubscription li = True) items),
                   lastPaidAt = lastPaidAtIso e items,
                   updatedAt = Some (toISOString e (now e)),
                   lastAuditAt = None, lastAuditReason = None\<rparr> em"
      obtain x w3 where se: "setExclusiveTierRole e uid g (role t) ?w2 = (x, w3)"
        by (cases "setExclusiveTierRole e uid g (role t) ?w2") auto
      then have seX: "setExclusiveTierRole e uid g (role t) (?w2\<lparr>storeFile := X\<rparr>)
          = (x, w3\<lparr>storeFile := X\<rparr>)"
        by (simp add: setExclusiveTierRole_storeFile)
      show ?thesis
      proof (cases x)
        case (Some err)
        with Inr False \<open>pickHighestTier (map title items) = Some t\<close> se seX show ?thesis
          by (simp add: verifyTry_def Let_def postBotLog_storeFile)
      next
        case None
        obtain y w4 where sv: "saveEmailMap e ?m w3 = (y, w4)"
          by (cases "saveEmailMap e ?m w3") auto
        then have svX: "saveEmailMap e ?m (w3\<lparr>storeFile := X\<rparr>)
            = (y, if y = None then w4 else w4\<lparr>storeFile := X\<rparr>)"
          by (cases y) (simp_all add: saveEmailMap_storeFile)
        from Inr False \<open>pickHighestTier (map title items) = Some t\<close> se seX None sv svX
        show ?thesis
          by (cases y) (simp_all add: verifyTry_def Let_def postBotLog_storeFile)
      qed
    qed
  qed
qed

lemma verify_storeFile:
  assumes "loadEmailMap (w\<lparr>storeFile := X\<rparr>) = loadEmailMap w"
  shows "verify e f g raw uid tag (w\<lparr>storeFile := X\<rparr>) =
     (case verify e f g raw uid tag w of
        (out, w') \<Rightarrow> (out, if out = Verified then w' else w'\<lparr>storeFile := X\<rparr>))"
proof -
  let ?email = "normEmail raw"
  let ?w1 = "postBotLog ''verify_requested'' INFO (Some ?email) w"
  obtain r w2 where vt: "verifyTry e f g ?email uid tag (loadEmailMap w) ?w1 = (r, w2)"
    by (cases "verifyTry e f g ?email uid tag (loadEmailMap w) ?w1") auto
  then have vtX: "verifyTry e f g ?email uid tag (loadEmailMap w) (?w1\<lparr>storeFile := X\<rparr>)
      = (r, if r = Inr Verified then w2 else w2\<lparr>storeFile := X\<rparr>)"
    by (simp add: verifyTry_storeFile)
  show ?thesis
    using assms vt vtX unfolding verify_def Let_def
    by (cases r) (auto simp: postBotLog_storeFile)
qed


lemma runSubscriptionAudit_empty:
  assumes "loadEmailMap w = []"
  shows "runSubscriptionAudit cfg e w =
     (None, w\<lparr>log := log w @ [LogEvent ''audit_start'' INFO None,
                               LogEvent ''audit_end'' INFO None]\<rparr>)"
  using assms by (simp add: runSubscriptionAudit_def postBotLog_def)



end
